theory Spec2Isabelle
  imports Complex_Main "HOL-Library.Word" "HOL-Library.Sublist" "HOL-Library.Multiset"
begin

section \<open>The answer endpoint of mini-motorDeIA (app/api/answer/route.ts)\<close>

text \<open>
  The source holds two revisions of \<^verbatim>\<open>route.ts\<close> (lines 1-198 and lines 199-397).
  They agree on \<^verbatim>\<open>cosineSimilarity\<close>, \<^verbatim>\<open>loadAndChunkFiles\<close>, \<^verbatim>\<open>generateEmbeddings\<close>,
  \<^verbatim>\<open>getEmbeddings\<close> and on the whole of \<^verbatim>\<open>POST\<close> except for the context string and the
  prompt around it. The shared functions are modelled once; the handler is modelled once
  with the context builder as its parameter and instantiated for each revision.
\<close>

subsection \<open>Strings\<close>

text \<open>
  A JavaScript string is a sequence of UTF-16 code units; \<^verbatim>\<open>.length\<close> counts code units
  and \<^verbatim>\<open>substring\<close> cuts at code units.
\<close>

type_synonym code_unit = "16 word"
type_synonym jsstring = "code_unit list"

text \<open>An ASCII literal of the source as a JavaScript string.\<close>

definition lit :: "string \<Rightarrow> jsstring" where
  "lit s = map of_char s"

text \<open>The line feed \<^verbatim>\<open>'\n'\<close>.\<close>

definition LF :: code_unit where
  "LF = 0x0A"

text \<open>
  What \<^verbatim>\<open>String.prototype.trim\<close> strips: ECMAScript's WhiteSpace (TAB, VT, FF, SP, NBSP,
  ZWNBSP and the Unicode space separators) and LineTerminator (LF, CR, LS, PS).
\<close>

definition isWhiteSpace :: "code_unit \<Rightarrow> bool" where
  "isWhiteSpace c =
     (c = 0x09 \<or> c = 0x0A \<or> c = 0x0B \<or> c = 0x0C \<or> c = 0x0D \<or> c = 0x20 \<or> c = 0xA0
      \<or> c = 0x1680 \<or> (0x2000 \<le> c \<and> c \<le> 0x200A) \<or> c = 0x2028 \<or> c = 0x2029
      \<or> c = 0x202F \<or> c = 0x205F \<or> c = 0x3000 \<or> c = 0xFEFF)"

definition trim :: "jsstring \<Rightarrow> jsstring" where
  "trim s = rev (dropWhile isWhiteSpace (rev (dropWhile isWhiteSpace s)))"

text \<open>
  \<^verbatim>\<open>content.split('\n')\<close>: the pieces between line feeds; the empty string gives one
  empty piece, and a trailing line feed gives a last empty piece.
\<close>

fun split_lines :: "jsstring \<Rightarrow> jsstring list" where
  "split_lines [] = [[]]"
| "split_lines (c # cs) =
     (if c = LF then [] # split_lines cs
      else (c # hd (split_lines cs)) # tl (split_lines cs))"

text \<open>\<^verbatim>\<open>Array.prototype.join(sep)\<close> on an array of strings.\<close>

fun join :: "jsstring \<Rightarrow> jsstring list \<Rightarrow> jsstring" where
  "join sep [] = []"
| "join sep [x] = x"
| "join sep (x # y # ys) = x @ sep @ join sep (y # ys)"

text \<open>\<^verbatim>\<open>s.endsWith(suffix)\<close>.\<close>

definition endsWith :: "jsstring \<Rightarrow> jsstring \<Rightarrow> bool" where
  "endsWith s sfx = (length sfx \<le> length s \<and> drop (length s - length sfx) s = sfx)"

text \<open>The decimal digits of a number, as the template literal \<^verbatim>\<open>${i + 1}\<close> prints them.\<close>

fun decimal :: "nat \<Rightarrow> jsstring" where
  "decimal n = (if n < 10 then [of_nat (48 + n)] else decimal (n div 10) @ [of_nat (48 + n mod 10)])"

subsection \<open>Numbers\<close>

text \<open>
  A JavaScript number is modelled as a real number or one of the IEEE special values.
  Rounding and overflow of finite values are not modelled, and \<open>-0\<close> is identified with
  \<open>+0\<close>. Division is IEEE division: \<open>0 / 0\<close> is \<open>NaN\<close> and a non-zero number divided by
  zero is an infinity (the only divisor in the source is a product of two square roots,
  which is never \<open>-0\<close>).
\<close>

datatype jsnum = Num real | PosInf | NegInf | NaN

fun js_add :: "jsnum \<Rightarrow> jsnum \<Rightarrow> jsnum" where
  "js_add NaN _ = NaN"
| "js_add _ NaN = NaN"
| "js_add (Num x) (Num y) = Num (x + y)"
| "js_add PosInf NegInf = NaN"
| "js_add NegInf PosInf = NaN"
| "js_add PosInf _ = PosInf"
| "js_add _ PosInf = PosInf"
| "js_add NegInf _ = NegInf"
| "js_add _ NegInf = NegInf"

fun js_neg :: "jsnum \<Rightarrow> jsnum" where
  "js_neg (Num x) = Num (- x)"
| "js_neg PosInf = NegInf"
| "js_neg NegInf = PosInf"
| "js_neg NaN = NaN"

definition js_sub :: "jsnum \<Rightarrow> jsnum \<Rightarrow> jsnum" where
  "js_sub a b = js_add a (js_neg b)"

text \<open>The sign of a number that is not \<open>NaN\<close>: \<open>-1\<close>, \<open>0\<close> or \<open>1\<close>.\<close>

fun js_sgn :: "jsnum \<Rightarrow> int" where
  "js_sgn (Num x) = (if x < 0 then - 1 else if x = 0 then 0 else 1)"
| "js_sgn PosInf = 1"
| "js_sgn NegInf = - 1"
| "js_sgn NaN = 0"

definition inf_of_sign :: "int \<Rightarrow> jsnum" where
  "inf_of_sign s = (if s = 0 then NaN else if 0 < s then PosInf else NegInf)"

fun js_mul :: "jsnum \<Rightarrow> jsnum \<Rightarrow> jsnum" where
  "js_mul NaN _ = NaN"
| "js_mul _ NaN = NaN"
| "js_mul (Num x) (Num y) = Num (x * y)"
| "js_mul a b = inf_of_sign (js_sgn a * js_sgn b)"

fun js_div :: "jsnum \<Rightarrow> jsnum \<Rightarrow> jsnum" where
  "js_div NaN _ = NaN"
| "js_div _ NaN = NaN"
| "js_div (Num x) (Num y) = (if y = 0 then inf_of_sign (js_sgn (Num x)) else Num (x / y))"
| "js_div (Num x) _ = Num 0"
| "js_div a (Num y) = inf_of_sign (js_sgn a * (if y < 0 then - 1 else 1))"
| "js_div _ _ = NaN"

fun js_sqrt :: "jsnum \<Rightarrow> jsnum" where
  "js_sqrt (Num x) = (if x < 0 then NaN else Num (sqrt x))"
| "js_sqrt PosInf = PosInf"
| "js_sqrt NegInf = NaN"
| "js_sqrt NaN = NaN"

text \<open>The comparisons \<^verbatim>\<open>>\<close> and \<^verbatim>\<open>>=\<close>: false as soon as one side is \<open>NaN\<close>.\<close>

fun js_gt :: "jsnum \<Rightarrow> jsnum \<Rightarrow> bool" where
  "js_gt NaN _ = False"
| "js_gt _ NaN = False"
| "js_gt (Num x) (Num y) = (y < x)"
| "js_gt PosInf b = (b \<noteq> PosInf)"
| "js_gt a NegInf = (a \<noteq> NegInf)"
| "js_gt _ _ = False"

definition js_ge :: "jsnum \<Rightarrow> jsnum \<Rightarrow> bool" where
  "js_ge a b = (a \<noteq> NaN \<and> b \<noteq> NaN \<and> (a = b \<or> js_gt a b))"

subsection \<open>Types of the module (route.ts, lines 13-24)\<close>

record TextChunk =
  "text" :: jsstring
  source :: jsstring
  embedding :: "real list option"

record CachedEmbeddings =
  chunks :: "TextChunk list"
  timestamp :: int

subsection \<open>cosineSimilarity (lines 27-32)\<close>

text \<open>
  \<^verbatim>\<open>b[i]\<close> as an operand of \<^verbatim>\<open>*\<close>: past the end of \<open>b\<close> it is \<^verbatim>\<open>undefined\<close>, which
  converts to \<open>NaN\<close>.
\<close>

definition at_num :: "real list \<Rightarrow> nat \<Rightarrow> jsnum" where
  "at_num b i = (if i < length b then Num (b ! i) else NaN)"

text \<open>\<^verbatim>\<open>Math.sqrt(v.reduce((sum, val) => sum + val * val, 0))\<close>.\<close>

definition magnitude :: "real list \<Rightarrow> jsnum" where
  "magnitude v = js_sqrt (foldl (\<lambda>sum val. js_add sum (js_mul (Num val) (Num val))) (Num 0) v)"

text \<open>
  The arithmetic is the idealised one of the section on numbers. For a vector that is
  zero the result is \<open>NaN\<close> in IEEE arithmetic as well. For other vectors the IEEE result
  can differ from the idealised one by rounding, underflow or overflow (it can be
  infinite, or \<open>NaN\<close> for a norm that underflows); the properties of the ranking are
  therefore stated for every similarity function, and the value of this one is used only
  at vectors of zeros and ones, where both agree.
\<close>

definition cosineSimilarity :: "real list \<Rightarrow> real list \<Rightarrow> jsnum" where
  "cosineSimilarity a b =
     (let dotProduct =
            foldl (\<lambda>sum (val, i). js_add sum (js_mul (Num val) (at_num b i)))
              (Num 0) (zip a [0..<length a]);
          magnitudeA = magnitude a;
          magnitudeB = magnitude b
      in js_div dotProduct (js_mul magnitudeA magnitudeB))"

subsection \<open>The chunker of loadAndChunkFiles (lines 43-65)\<close>

text \<open>
  The loop over the lines of one file with its accumulator \<^verbatim>\<open>currentChunk\<close>, and the
  flush after the loop. The result is the chunks pushed from this point on, in order.
\<close>

definition flush :: "jsstring \<Rightarrow> jsstring \<Rightarrow> TextChunk list" where
  "flush file currentChunk =
     (if trim currentChunk \<noteq> []
      then [\<lparr>text = trim currentChunk, source = file, embedding = None\<rparr>]
      else [])"

fun chunk_lines :: "jsstring \<Rightarrow> jsstring list \<Rightarrow> jsstring \<Rightarrow> TextChunk list" where
  "chunk_lines file [] currentChunk = flush file currentChunk"
| "chunk_lines file (line # lines) currentChunk =
     (if length currentChunk + length line > 800
      then flush file currentChunk @ chunk_lines file lines line
      else chunk_lines file lines (currentChunk @ [LF] @ line))"

text \<open>The chunks of one file: its content split into lines, the accumulator empty.\<close>

definition chunk_file :: "jsstring \<Rightarrow> jsstring \<Rightarrow> TextChunk list" where
  "chunk_file file content = chunk_lines file (split_lines content) []"

subsection \<open>The module's state and the world outside it\<close>

text \<open>
  Everything the module reads from outside is a field of the state, so that each
  function below is a pure function of it: the readings the next calls of
  \<^verbatim>\<open>Date.now()\<close> return, the values the next calls of \<^verbatim>\<open>Math.random()\<close> return, the data
  directory, and the outcome of the next calls of the two remote services (\<open>None\<close>: the
  call rejects). \<open>cachedData\<close> is the module variable of line 24 and \<open>io_log\<close> records the
  file and network operations performed so far. One request is handled at a time;
  \<^verbatim>\<open>console.log\<close> and \<^verbatim>\<open>console.error\<close> are left out.
\<close>

datatype js_error = FsError | TypeError | EmbeddingError | ChatError | SyntaxError

datatype event =
    ReadDir
  | ReadFile jsstring
  | EmbeddingsCreate jsstring
  | ChatCreate jsstring jsstring

record world =
  cachedData :: "CachedEmbeddings option"
  io_log :: "event list"
  clock :: "nat \<Rightarrow> int"
  randoms :: "nat \<Rightarrow> real"
  fs_readdir :: "jsstring list option"
  fs_readFile :: "jsstring \<Rightarrow> jsstring option"
  embedding_service :: "nat \<Rightarrow> jsstring \<Rightarrow> real list list option"
  chat_service :: "nat \<Rightarrow> jsstring \<Rightarrow> jsstring \<Rightarrow> jsstring option option"

definition Date_now :: "world \<Rightarrow> int \<times> world" where
  "Date_now w = (clock w 0, w\<lparr>clock := \<lambda>n. clock w (Suc n)\<rparr>)"

definition Math_random :: "world \<Rightarrow> real \<times> world" where
  "Math_random w = (randoms w 0, w\<lparr>randoms := \<lambda>n. randoms w (Suc n)\<rparr>)"

definition readdirSync :: "world \<Rightarrow> (js_error + jsstring list) \<times> world" where
  "readdirSync w =
     (case fs_readdir w of None \<Rightarrow> Inl FsError | Some names \<Rightarrow> Inr names,
      w\<lparr>io_log := io_log w @ [ReadDir]\<rparr>)"

definition readFileSync :: "world \<Rightarrow> jsstring \<Rightarrow> (js_error + jsstring) \<times> world" where
  "readFileSync w file =
     (case fs_readFile w file of None \<Rightarrow> Inl FsError | Some content \<Rightarrow> Inr content,
      w\<lparr>io_log := io_log w @ [ReadFile file]\<rparr>)"

text \<open>
  \<^verbatim>\<open>client.embeddings.create({model, input})\<close>: the \<^verbatim>\<open>data\<close> array of the response, each
  entry given by its \<^verbatim>\<open>embedding\<close> (a \<^verbatim>\<open>number[]\<close> in the SDK's type).
\<close>

definition embeddings_create :: "world \<Rightarrow> jsstring \<Rightarrow> (js_error + real list list) \<times> world" where
  "embeddings_create w input =
     (case embedding_service w 0 input of None \<Rightarrow> Inl EmbeddingError | Some data \<Rightarrow> Inr data,
      w\<lparr>io_log := io_log w @ [EmbeddingsCreate input],
        embedding_service := \<lambda>n. embedding_service w (Suc n)\<rparr>)"

text \<open>
  \<^verbatim>\<open>client.chat.completions.create(...)\<close> followed by \<^verbatim>\<open>completion.choices[0].message.content\<close>
  (a string or \<^verbatim>\<open>null\<close>). Of the request only the two interpolated parts of the user
  message are kept, the context and the question; the model name, the prompt text around
  them, the temperature and \<^verbatim>\<open>max_tokens\<close> are constants of each handler.
\<close>

definition chat_completions_create ::
  "world \<Rightarrow> jsstring \<Rightarrow> jsstring \<Rightarrow> (js_error + jsstring option) \<times> world" where
  "chat_completions_create w context question =
     (case chat_service w 0 context question of
        None \<Rightarrow> Inl ChatError | Some content \<Rightarrow> Inr content,
      w\<lparr>io_log := io_log w @ [ChatCreate context question],
        chat_service := \<lambda>n. chat_service w (Suc n)\<rparr>)"

subsection \<open>The embedder (lines 76-90 and 133-142)\<close>

text \<open>\<^verbatim>\<open>Array(n).fill(0).map(() => Math.random())\<close>: \<open>n\<close> calls of \<^verbatim>\<open>Math.random\<close>, in order.\<close>

primrec random_array :: "nat \<Rightarrow> world \<Rightarrow> real list \<times> world" where
  "random_array 0 w = ([], w)"
| "random_array (Suc n) w =
     (let (x, w1) = Math_random w; (xs, w2) = random_array n w1 in (x # xs, w2))"

text \<open>
  The body of the \<^verbatim>\<open>try\<close>: the service call, then \<^verbatim>\<open>response.data[0].embedding\<close>, which
  throws a TypeError when \<^verbatim>\<open>data\<close> is empty.
\<close>

definition request_embedding :: "world \<Rightarrow> jsstring \<Rightarrow> (js_error + real list) \<times> world" where
  "request_embedding w input =
     (case embeddings_create w input of
        (Inl e, w1) \<Rightarrow> (Inl e, w1)
      | (Inr data, w1) \<Rightarrow> (case data of [] \<Rightarrow> (Inl TypeError, w1) | e # _ \<Rightarrow> (Inr e, w1)))"

text \<open>
  The whole \<^verbatim>\<open>try { ... } catch (error) { ... }\<close>, written twice in the source: for a
  chunk's text in \<^verbatim>\<open>generateEmbeddings\<close> and for the question in \<^verbatim>\<open>POST\<close>.
\<close>

definition embedding_of :: "world \<Rightarrow> jsstring \<Rightarrow> real list \<times> world" where
  "embedding_of w input =
     (case request_embedding w input of
        (Inr e, w1) \<Rightarrow> (e, w1)
      | (Inl error, w1) \<Rightarrow> random_array 768 w1)"

subsection \<open>generateEmbeddings (lines 72-94)\<close>

fun generateEmbeddings :: "world \<Rightarrow> TextChunk list \<Rightarrow> TextChunk list \<times> world" where
  "generateEmbeddings w [] = ([], w)"
| "generateEmbeddings w (c # cs) =
     (let (e, w1) = embedding_of w (text c);
          (cs', w2) = generateEmbeddings w1 cs
      in (c\<lparr>embedding := Some e\<rparr> # cs', w2))"

subsection \<open>loadAndChunkFiles (lines 35-69)\<close>

text \<open>The loop over the files; a file that cannot be read throws out of the function.\<close>

fun chunk_files :: "world \<Rightarrow> jsstring list \<Rightarrow> (js_error + TextChunk list) \<times> world" where
  "chunk_files w [] = (Inr [], w)"
| "chunk_files w (file # files) =
     (case readFileSync w file of
        (Inl e, w1) \<Rightarrow> (Inl e, w1)
      | (Inr content, w1) \<Rightarrow>
          (case chunk_files w1 files of
             (Inl e, w2) \<Rightarrow> (Inl e, w2)
           | (Inr rest, w2) \<Rightarrow> (Inr (chunk_file file content @ rest), w2)))"

definition loadAndChunkFiles :: "world \<Rightarrow> (js_error + TextChunk list) \<times> world" where
  "loadAndChunkFiles w =
     (case readdirSync w of
        (Inl e, w1) \<Rightarrow> (Inl e, w1)
      | (Inr names, w1) \<Rightarrow>
          chunk_files w1
            (filter (\<lambda>f. endsWith f (lit ''.txt'') \<or> endsWith f (lit ''.md'')) names))"

subsection \<open>getEmbeddings (lines 97-114)\<close>

text \<open>Lines 104-113: load, generate the embeddings, store the snapshot with the time read after the work.\<close>

definition rebuild :: "world \<Rightarrow> (js_error + TextChunk list) \<times> world" where
  "rebuild w =
     (case loadAndChunkFiles w of
        (Inl e, w1) \<Rightarrow> (Inl e, w1)
      | (Inr cs, w1) \<Rightarrow>
          (let (chunksWithEmbeddings, w2) = generateEmbeddings w1 cs;
               (t, w3) = Date_now w2
           in (Inr chunksWithEmbeddings,
               w3\<lparr>cachedData := Some \<lparr>chunks = chunksWithEmbeddings, timestamp = t\<rparr>\<rparr>)))"

text \<open>
  Line 99: \<^verbatim>\<open>cachedData && Date.now() - cachedData.timestamp < 3600000\<close>; the clock is read
  only when a snapshot exists.
\<close>

definition getEmbeddings :: "world \<Rightarrow> (js_error + TextChunk list) \<times> world" where
  "getEmbeddings w =
     (case cachedData w of
        None \<Rightarrow> rebuild w
      | Some c \<Rightarrow>
          (let (t, w1) = Date_now w
           in if t - timestamp c < 3600000 then (Inr (chunks c), w1) else rebuild w1))"

subsection \<open>POST: ranking (lines 145-151)\<close>

record ScoredChunk = TextChunk +
  score :: jsnum

text \<open>
  The \<^verbatim>\<open>map\<close> of line 146. \<^verbatim>\<open>chunk.embedding!\<close> is not checked: with an absent embedding
  \<^verbatim>\<open>cosineSimilarity\<close> reads a property of \<^verbatim>\<open>undefined\<close> and throws a TypeError.
\<close>

fun score_chunks :: "real list \<Rightarrow> TextChunk list \<Rightarrow> js_error + ScoredChunk list" where
  "score_chunks questionEmbedding [] = Inr []"
| "score_chunks questionEmbedding (chunk # rest) =
     (case embedding chunk of
        None \<Rightarrow> Inl TypeError
      | Some e \<Rightarrow>
          (case score_chunks questionEmbedding rest of
             Inl err \<Rightarrow> Inl err
           | Inr scored \<Rightarrow>
               Inr (\<lparr>text = text chunk, source = source chunk, embedding = embedding chunk,
                      score = cosineSimilarity questionEmbedding e\<rparr> # scored)))"

text \<open>The comparator of line 150, \<^verbatim>\<open>(a, b) => b.score - a.score\<close>.\<close>

definition by_score_desc :: "ScoredChunk \<Rightarrow> ScoredChunk \<Rightarrow> jsnum" where
  "by_score_desc a b = js_sub (score b) (score a)"

text \<open>
  \<^verbatim>\<open>Array.prototype.sort(comparefn)\<close>. ECMAScript (2019 and later) requires a stable sort
  and reads a comparator result of \<open>NaN\<close> as \<open>+0\<close>: an element moves behind another
  only when \<open>comparefn x y > 0\<close>. Whenever the comparator so read is consistent (here:
  whenever no score is \<open>NaN\<close>) every stable sort returns the same list, the one the
  insertion sort below computes. When a score is \<open>NaN\<close> the comparator is not consistent
  and the order depends on the engine's algorithm, which is not modelled: the order of
  the insertion sort is then only one possible outcome.
\<close>

fun insert_sorted :: "('a \<Rightarrow> 'a \<Rightarrow> jsnum) \<Rightarrow> 'a \<Rightarrow> 'a list \<Rightarrow> 'a list" where
  "insert_sorted comparefn x [] = [x]"
| "insert_sorted comparefn x (y # ys) =
     (if js_gt (comparefn x y) (Num 0) then y # insert_sorted comparefn x ys
      else x # y # ys)"

fun js_sort :: "('a \<Rightarrow> 'a \<Rightarrow> jsnum) \<Rightarrow> 'a list \<Rightarrow> 'a list" where
  "js_sort comparefn [] = []"
| "js_sort comparefn (x # xs) = insert_sorted comparefn x (js_sort comparefn xs)"

text \<open>Lines 145-151: score, sort, \<^verbatim>\<open>slice(0, 3)\<close>.\<close>

definition scoredChunks :: "real list \<Rightarrow> TextChunk list \<Rightarrow> js_error + ScoredChunk list" where
  "scoredChunks questionEmbedding cs =
     (case score_chunks questionEmbedding cs of
        Inl err \<Rightarrow> Inl err
      | Inr scored \<Rightarrow> Inr (take 3 (js_sort by_score_desc scored)))"

subsection \<open>POST: context, citations, sources\<close>

text \<open>
  First revision, lines 154-156: each chunk under a label with its rank and its source,
  the chunks separated by a rule.
\<close>

definition context1 :: "ScoredChunk list \<Rightarrow> jsstring" where
  "context1 scored =
     join ([LF, LF] @ lit ''---'' @ [LF, LF])
       (map (\<lambda>(chunk, i). lit ''[Fuente '' @ decimal (i + 1) @ lit '': '' @ source chunk
                            @ lit '']'' @ [LF] @ text chunk)
          (zip scored [0..<length scored]))"

text \<open>Second revision, lines 348-350: the texts alone, separated by a blank line.\<close>

definition context2 :: "ScoredChunk list \<Rightarrow> jsstring" where
  "context2 scored = join [LF, LF] (map text scored)"

text \<open>
  Lines 180-184. The fields are those of the source's object literal, \<^verbatim>\<open>source\<close>,
  \<^verbatim>\<open>text\<close> and \<^verbatim>\<open>relevance\<close>; the first two are renamed because a record of HOL cannot
  share field names with \<open>TextChunk\<close>. \<^verbatim>\<open>substring(0, 200)\<close> is \<open>take 200\<close>.
\<close>

record Citation =
  cite_source :: jsstring
  cite_text :: jsstring
  relevance :: jsnum

definition citation :: "ScoredChunk \<Rightarrow> Citation" where
  "citation chunk =
     \<lparr>cite_source = source chunk,
      cite_text = take 200 (text chunk) @ lit ''...'',
      relevance = score chunk\<rparr>"

text \<open>
  Line 189, \<^verbatim>\<open>[...new Set(scoredChunks.map(c => c.source))]\<close>: the distinct sources in the
  order of their first occurrence.
\<close>

definition sources :: "ScoredChunk list \<Rightarrow> jsstring list" where
  "sources scored = rev (remdups (rev (map source scored)))"

subsection \<open>POST (lines 117-198 and 311-397)\<close>

text \<open>
  The request: \<^verbatim>\<open>await req.json()\<close> or the destructuring throws, or it yields a
  \<^verbatim>\<open>question\<close> that is a string or something else (absent, or not a string).
\<close>

datatype request = Unparsable | Question "jsstring option"

datatype response =
    Ok "jsstring option" "Citation list" "jsstring list"
  | BadRequest
  | ServerError js_error

definition POST_with ::
  "(ScoredChunk list \<Rightarrow> jsstring) \<Rightarrow> world \<Rightarrow> request \<Rightarrow> response \<times> world" where
  "POST_with build_context w req =
     (case req of
        Unparsable \<Rightarrow> (ServerError SyntaxError, w)
      | Question None \<Rightarrow> (BadRequest, w)
      | Question (Some question) \<Rightarrow>
          if question = [] then (BadRequest, w)
          else
            (case getEmbeddings w of
               (Inl e, w1) \<Rightarrow> (ServerError e, w1)
             | (Inr cs, w1) \<Rightarrow>
                 (let (questionEmbedding, w2) = embedding_of w1 question
                  in case scoredChunks questionEmbedding cs of
                       Inl e \<Rightarrow> (ServerError e, w2)
                     | Inr scored \<Rightarrow>
                         (case chat_completions_create w2 (build_context scored) question of
                            (Inl e, w3) \<Rightarrow> (ServerError e, w3)
                          | (Inr answer, w3) \<Rightarrow>
                              (Ok answer (map citation scored) (sources scored), w3)))))"

definition POST1 :: "world \<Rightarrow> request \<Rightarrow> response \<times> world" where
  "POST1 = POST_with context1"

definition POST2 :: "world \<Rightarrow> request \<Rightarrow> response \<times> world" where
  "POST2 = POST_with context2"

subsection \<open>Notions used to state the properties\<close>


text \<open>
  The states the module can be in: it starts with no snapshot, it handles requests (with
  either revision of the handler), and between requests the world outside may change in
  any way while the module variable stays as it is.
\<close>

inductive reachable :: "world \<Rightarrow> bool" where
  start: "cachedData w = None \<Longrightarrow> reachable w"
| request1: "reachable w \<Longrightarrow> reachable (snd (POST1 w req))"
| request2: "reachable w \<Longrightarrow> reachable (snd (POST2 w req))"
| outside: "reachable w \<Longrightarrow> cachedData w' = cachedData w \<Longrightarrow> reachable w'"

text \<open>Every chunk of the snapshot, if there is one, has its embedding.\<close>

definition cache_ok :: "world \<Rightarrow> bool" where
  "cache_ok w = (case cachedData w of None \<Rightarrow> True | Some c \<Rightarrow> \<forall>x\<in>set (chunks c). embedding x \<noteq> None)"

text \<open>
  Lines 145-151 with the similarity function as a parameter. What the ranking does with
  the scores does not depend on how a score is computed; stated for every similarity
  function, it holds for the arithmetic of IEEE doubles, which \<open>cosineSimilarity\<close> above
  idealises.
\<close>

fun score_chunks_by ::
  "(real list \<Rightarrow> real list \<Rightarrow> jsnum) \<Rightarrow> real list \<Rightarrow> TextChunk list \<Rightarrow> js_error + ScoredChunk list" where
  "score_chunks_by similarity questionEmbedding [] = Inr []"
| "score_chunks_by similarity questionEmbedding (chunk # rest) =
     (case embedding chunk of
        None \<Rightarrow> Inl TypeError
      | Some e \<Rightarrow>
          (case score_chunks_by similarity questionEmbedding rest of
             Inl err \<Rightarrow> Inl err
           | Inr scored \<Rightarrow>
               Inr (\<lparr>text = text chunk, source = source chunk, embedding = embedding chunk,
                      score = similarity questionEmbedding e\<rparr> # scored)))"

definition scoredChunks_by ::
  "(real list \<Rightarrow> real list \<Rightarrow> jsnum) \<Rightarrow> real list \<Rightarrow> TextChunk list \<Rightarrow> js_error + ScoredChunk list" where
  "scoredChunks_by similarity questionEmbedding cs =
     (case score_chunks_by similarity questionEmbedding cs of
        Inl err \<Rightarrow> Inl err
      | Inr scored \<Rightarrow> Inr (take 3 (js_sort by_score_desc scored)))"

text \<open>
  A key for the numbers other than \<open>NaN\<close>, smaller for a greater number: the arc tangent
  keeps the order of the finite numbers and leaves room for the two infinities.
\<close>

definition order_key :: "jsnum \<Rightarrow> real" where
  "order_key s =
     (case s of Num r \<Rightarrow> - arctan r | PosInf \<Rightarrow> - (pi / 2) | NegInf \<Rightarrow> pi / 2 | NaN \<Rightarrow> 0)"

text \<open>
  A text modulo line-boundary whitespace: every line trimmed and the line breaks removed.
\<close>

definition squeeze :: "jsstring \<Rightarrow> jsstring" where
  "squeeze s = concat (map trim (split_lines s))"

subsection \<open>Example inputs\<close>

text \<open>
  A world whose embedding service rejects every call, with one document; the values of
  \<^verbatim>\<open>Math.random()\<close> are \<open>1/2, 1/3, 1/4, ...\<close>.
\<close>

definition offline_world :: world where
  "offline_world =
     \<lparr>cachedData = None, io_log = [], clock = (\<lambda>n. 0),
      randoms = (\<lambda>n. 1 / (real n + 2)),
      fs_readdir = Some [lit ''precios.txt''],
      fs_readFile = (\<lambda>file. Some (lit ''Price: $999'')),
      embedding_service = (\<lambda>n input. None),
      chat_service = (\<lambda>n context question. Some (Some (lit ''999'')))\<rparr>"

text \<open>A ranked chunk of eleven characters.\<close>

definition price_chunk :: ScoredChunk where
  "price_chunk =
     \<lparr>text = lit ''Price: $999'', source = lit ''precios.txt'', embedding = Some [1],
      score = Num 1\<rparr>"

text \<open>
  A world with a snapshot of one embedded chunk taken at time 0, read at time 1000; the
  data directory is unreadable, the embedding service answers \<open>[1]\<close>.
\<close>

definition cached_world :: world where
  "cached_world =
     \<lparr>cachedData =
        Some \<lparr>chunks = [\<lparr>text = lit ''Price: $999'', source = lit ''precios.txt'',
                           embedding = Some [1]\<rparr>],
              timestamp = 0\<rparr>,
      io_log = [], clock = (\<lambda>n. 1000),
      randoms = (\<lambda>n. 0),
      fs_readdir = None,
      fs_readFile = (\<lambda>f. None),
      embedding_service = (\<lambda>n input. Some [[1]]),
      chat_service = (\<lambda>n context question. Some (Some (lit ''999'')))\<rparr>"


text \<open>Four embedded chunks; against \<open>[1, 0]\<close> they score 0, 1, 1 and 0.\<close>

definition four_chunks :: "TextChunk list" where
  "four_chunks =
     [\<lparr>text = lit ''a'', source = lit ''uno.txt'', embedding = Some [0, 1]\<rparr>,
      \<lparr>text = lit ''b'', source = lit ''uno.txt'', embedding = Some [1, 0]\<rparr>,
      \<lparr>text = lit ''c'', source = lit ''dos.md'', embedding = Some [1, 0]\<rparr>,
      \<lparr>text = lit ''d'', source = lit ''dos.md'', embedding = Some [0, 1]\<rparr>]"

text \<open>
  A document of three lines: 500 times \<^verbatim>\<open>a\<close>, 500 times \<^verbatim>\<open>b\<close> and 300 times \<^verbatim>\<open>c\<close>.
\<close>

definition three_lines :: jsstring where
  "three_lines = replicate 500 0x61 @ [LF] @ replicate 500 0x62 @ [LF] @ replicate 300 0x63"

text \<open>
  A similarity function with infinite scores: \<open>Infinity\<close> for the vector \<open>[1, 0]\<close> and
  \<open>0\<close> for every other.
\<close>

definition overflowing :: "real list \<Rightarrow> real list \<Rightarrow> jsnum" where
  "overflowing q e = (if e = [1, 0] then PosInf else Num 0)"

section \<open>Properties\<close>

subsection \<open>Similarity\<close>

lemma sumsq_foldl:
  "foldl (\<lambda>sum val. js_add sum (Num (val * val))) (Num s) v = Num (s + (\<Sum>x\<leftarrow>v. x * x))"
  by (induction v arbitrary: s) (simp_all add: algebra_simps)

lemma sumsq_nonneg: "0 \<le> (\<Sum>x\<leftarrow>v. x * x :: real)"
  by (rule sum_list_nonneg) auto

lemma magnitude_eq: "magnitude v = Num (sqrt (\<Sum>x\<leftarrow>v. x * x))"
  using sumsq_nonneg [of v] by (simp add: magnitude_def sumsq_foldl)

lemma dot_foldl:
  "k + length a \<le> length b \<Longrightarrow>
   foldl (\<lambda>sum (val, i). js_add sum (js_mul (Num val) (at_num b i))) (Num s)
     (zip a [k..<k + length a])
     = Num (s + (\<Sum>(x, y)\<leftarrow>zip a (drop k b). x * y))"
proof (induction a arbitrary: k s)
  case Nil
  then show ?case by simp
next
  case (Cons x a)
  have kb: "k < length b" using Cons.prems by simp
  have up: "[k..<k + length (x # a)] = k # [Suc k..<Suc k + length a]"
    by (subst upt_rec) simp
  have dr: "drop k b = b ! k # drop (Suc k) b"
    using kb by (simp add: Cons_nth_drop_Suc)
  have ih: "foldl (\<lambda>sum (val, i). js_add sum (js_mul (Num val) (at_num b i)))
              (Num (s + x * b ! k)) (zip a [Suc k..<Suc k + length a])
            = Num ((s + x * b ! k) + (\<Sum>(x, y)\<leftarrow>zip a (drop (Suc k) b). x * y))"
    using Cons.prems by (intro Cons.IH) simp
  show ?case
    unfolding up dr using kb ih by (simp add: at_num_def algebra_simps)
qed

text \<open>On vectors of equal length the function is the quotient it is meant to be.\<close>

lemma cosine_defined:
  assumes "length a = length b"
  shows "cosineSimilarity a b =
     js_div (Num (\<Sum>(x, y)\<leftarrow>zip a b. x * y))
       (Num (sqrt (\<Sum>x\<leftarrow>a. x * x) * sqrt (\<Sum>x\<leftarrow>b. x * x)))"
  using dot_foldl [of 0 a b 0] assms by (simp add: cosineSimilarity_def magnitude_eq Let_def)

lemma sumsq_zero_iff: "(\<Sum>x\<leftarrow>v. x * x :: real) = 0 \<longleftrightarrow> (\<forall>x\<in>set v. x = 0)"
  by (induction v) (auto simp: add_nonneg_eq_0_iff sumsq_nonneg)

lemma dot_zero_left: "\<forall>x\<in>set a. x = 0 \<Longrightarrow> (\<Sum>(x, y)\<leftarrow>zip a b. x * y :: real) = 0"
  by (induction a arbitrary: b) (auto simp: zip_Cons1 split: list.splits)

lemma dot_zero_right: "\<forall>x\<in>set b. x = 0 \<Longrightarrow> (\<Sum>(x, y)\<leftarrow>zip a b. x * y :: real) = 0"
  by (induction b arbitrary: a) (auto simp: zip_Cons split: list.splits)

text \<open>
  Claim C1, as the code has it. For two vectors of equal length of which at least one has
  Euclidean norm zero, \<open>cosineSimilarity\<close> divides zero by zero and returns \<open>NaN\<close>: the
  source has no guard and substitutes no sentinel score, and the ranking step gives the
  chunk that \<open>NaN\<close> as its score.
\<close>

theorem cosineSimilarity_zero_norm_is_NaN:
  assumes "length a = length b"
    and "sqrt (\<Sum>x\<leftarrow>a. x * x) = 0 \<or> sqrt (\<Sum>x\<leftarrow>b. x * x) = 0"
  shows "cosineSimilarity a b = NaN
         \<and> scoredChunks a [\<lparr>text = t, source = s, embedding = Some b\<rparr>]
             = Inr [\<lparr>text = t, source = s, embedding = Some b, score = NaN\<rparr>]"
proof -
  have "(\<forall>x\<in>set a. x = 0) \<or> (\<forall>x\<in>set b. x = 0)"
    using assms(2) by (simp add: sumsq_zero_iff)
  then have "(\<Sum>(x, y)\<leftarrow>zip a b. x * y) = 0"
    using dot_zero_left dot_zero_right by blast
  moreover have "sqrt (\<Sum>x\<leftarrow>a. x * x) * sqrt (\<Sum>x\<leftarrow>b. x * x) = 0"
    using assms(2) by auto
  ultimately have "cosineSimilarity a b = NaN"
    using assms(1) by (simp add: cosine_defined inf_of_sign_def)
  then show ?thesis by (simp add: scoredChunks_def)
qed

theorem cosineSimilarity_zero_norm_witness:
  "length [0, 0 :: real] = length [3, 4 :: real]
   \<and> (sqrt (\<Sum>x\<leftarrow>[0, 0 :: real]. x * x) = 0 \<or> sqrt (\<Sum>x\<leftarrow>[3, 4 :: real]. x * x) = 0)
   \<and> cosineSimilarity [0, 0] [3, 4] = NaN
   \<and> scoredChunks [0, 0] [\<lparr>text = lit ''a'', source = lit ''b'', embedding = Some [3, 4]\<rparr>]
       = Inr [\<lparr>text = lit ''a'', source = lit ''b'', embedding = Some [3, 4], score = NaN\<rparr>]"
  using cosineSimilarity_zero_norm_is_NaN [of "[0, 0]" "[3, 4]" "lit ''a''" "lit ''b''"] by simp

text \<open>
  The claim as stated fails: the zero vector \<open>[0]\<close> against \<open>[1]\<close> scores \<open>NaN\<close>, and the
  ranking step of \<open>POST\<close> carries that \<open>NaN\<close> as the chunk's score.
\<close>

theorem zero_vector_scores_NaN:
  "cosineSimilarity [0] [1] = NaN
   \<and> scoredChunks [1] [\<lparr>text = lit ''a'', source = lit ''b'', embedding = Some [0]\<rparr>]
       = Inr [\<lparr>text = lit ''a'', source = lit ''b'', embedding = Some [0], score = NaN\<rparr>]"
  by (simp add: scoredChunks_def cosineSimilarity_def magnitude_def at_num_def inf_of_sign_def)

subsection \<open>The embedder\<close>

lemma random_array_eq:
  "random_array n w = (map (randoms w) [0..<n], w\<lparr>randoms := \<lambda>k. randoms w (k + n)\<rparr>)"
proof (induction n arbitrary: w)
  case 0
  show ?case by simp
next
  case (Suc n)
  have "map (randoms w) [0..<Suc n] = randoms w 0 # map (\<lambda>k. randoms w (Suc k)) [0..<n]"
    by (simp add: upt_conv_Cons map_Suc_upt [symmetric] del: upt_Suc)
  then show ?case
    by (simp add: Suc.IH Math_random_def del: upt_Suc)
qed

lemma request_embedding_randoms: "randoms (snd (request_embedding w input)) = randoms w"
  by (simp add: request_embedding_def embeddings_create_def split: option.splits list.splits)

lemma embedding_of_failure:
  assumes "fst (request_embedding w input) = Inl e"
  shows "embedding_of w input =
     (map (randoms w) [0..<768],
      (snd (request_embedding w input))\<lparr>randoms := \<lambda>k. randoms w (k + 768)\<rparr>)"
proof -
  obtain r w1 where rw: "request_embedding w input = (r, w1)"
    by (cases "request_embedding w input")
  with assms have r: "r = Inl e" by simp
  have "randoms w1 = randoms w" using request_embedding_randoms [of w input] rw by simp
  then show ?thesis
    by (simp add: embedding_of_def rw r random_array_eq)
qed

lemma embedding_of_success:
  assumes "fst (request_embedding w input) = Inr v"
  shows "embedding_of w input = (v, snd (request_embedding w input))"
  using assms by (cases "request_embedding w input") (simp add: embedding_of_def)

lemma offline_fails: "fst (request_embedding offline_world input) = Inl EmbeddingError"
  by (simp add: request_embedding_def embeddings_create_def offline_world_def)

text \<open>
  Claim C2, as the code has it. When the body of the \<^verbatim>\<open>try\<close> throws (the service call
  rejects, or its response has no first entry), the embedder returns a vector and no
  error: the next 768 values of \<^verbatim>\<open>Math.random()\<close>, in order. Its length is 768; its
  content is whatever the random source yields, not a function of the text.
\<close>

theorem embedding_of_fallback:
  assumes "fst (request_embedding w input) = Inl e"
  shows "fst (embedding_of w input) = map (randoms w) [0..<768]
         \<and> length (fst (embedding_of w input)) = 768"
  using embedding_of_failure [OF assms] by simp

theorem embedding_of_fallback_witness:
  "fst (request_embedding offline_world (lit ''hola'')) = Inl EmbeddingError
   \<and> fst (embedding_of offline_world (lit ''hola'')) = map (randoms offline_world) [0..<768]
   \<and> length (fst (embedding_of offline_world (lit ''hola''))) = 768"
  using embedding_of_fallback [of offline_world "lit ''hola''" EmbeddingError] offline_fails
  by simp

text \<open>
  The claim as stated fails: with the service down, embedding the same text twice in a
  row gives two different vectors.
\<close>

theorem fallback_differs_between_runs:
  "fst (request_embedding offline_world (lit ''hola'')) = Inl EmbeddingError
   \<and> fst (request_embedding (snd (embedding_of offline_world (lit ''hola''))) (lit ''hola''))
       = Inl EmbeddingError
   \<and> fst (embedding_of (snd (embedding_of offline_world (lit ''hola''))) (lit ''hola''))
       \<noteq> fst (embedding_of offline_world (lit ''hola''))"
proof -
  let ?t = "lit ''hola''"
  let ?w1 = "snd (embedding_of offline_world ?t)"
  have f0: "fst (request_embedding offline_world ?t) = Inl EmbeddingError"
    by (rule offline_fails)
  have e0: "embedding_of offline_world ?t =
     (map (randoms offline_world) [0..<768],
      (snd (request_embedding offline_world ?t))
        \<lparr>randoms := \<lambda>k. randoms offline_world (k + 768)\<rparr>)"
    by (rule embedding_of_failure [OF f0])
  have r1: "randoms ?w1 = (\<lambda>k. randoms offline_world (k + 768))"
    by (simp add: e0)
  have s1: "embedding_service ?w1 = (\<lambda>n input. None)"
    unfolding e0 by (simp add: request_embedding_def embeddings_create_def offline_world_def)
  have f1: "fst (request_embedding ?w1 ?t) = Inl EmbeddingError"
    by (simp add: request_embedding_def embeddings_create_def s1)
  have e1: "fst (embedding_of ?w1 ?t) = map (randoms ?w1) [0..<768]"
    using embedding_of_failure [OF f1] by simp
  have "fst (embedding_of ?w1 ?t) ! 0 = randoms offline_world 768"
    unfolding e1 r1 by (subst nth_map) simp_all
  moreover have "fst (embedding_of offline_world ?t) ! 0 = randoms offline_world 0"
    unfolding e0 fst_conv by (subst nth_map) simp_all
  moreover have "randoms offline_world 768 \<noteq> randoms offline_world 0"
    by (simp add: offline_world_def)
  ultimately have "fst (embedding_of ?w1 ?t) \<noteq> fst (embedding_of offline_world ?t)"
    by metis
  with f0 f1 show ?thesis by blast
qed

subsection \<open>What each operation changes\<close>

lemma Date_now_frame [simp]:
  "cachedData (snd (Date_now w)) = cachedData w"
  "io_log (snd (Date_now w)) = io_log w"
  "fst (Date_now w) = clock w 0"
  "clock (snd (Date_now w)) n = clock w (Suc n)"
  by (simp_all add: Date_now_def)

lemma request_embedding_frame [simp]:
  "cachedData (snd (request_embedding w input)) = cachedData w"
  "io_log (snd (request_embedding w input)) = io_log w @ [EmbeddingsCreate input]"
  "clock (snd (request_embedding w input)) = clock w"
  by (simp_all add: request_embedding_def embeddings_create_def split: option.splits list.splits)

lemma embedding_of_frame [simp]:
  "cachedData (snd (embedding_of w input)) = cachedData w"
  "io_log (snd (embedding_of w input)) = io_log w @ [EmbeddingsCreate input]"
  "clock (snd (embedding_of w input)) = clock w"
proof -
  obtain r w1 where rw: "request_embedding w input = (r, w1)"
    by (cases "request_embedding w input")
  have f: "cachedData w1 = cachedData w" "io_log w1 = io_log w @ [EmbeddingsCreate input]" "clock w1 = clock w"
    using request_embedding_frame [of w input] rw by simp_all
  show "cachedData (snd (embedding_of w input)) = cachedData w"
    by (cases r) (simp_all add: embedding_of_def rw random_array_eq f)
  show "io_log (snd (embedding_of w input)) = io_log w @ [EmbeddingsCreate input]"
    by (cases r) (simp_all add: embedding_of_def rw random_array_eq f)
  show "clock (snd (embedding_of w input)) = clock w"
    by (cases r) (simp_all add: embedding_of_def rw random_array_eq f)
qed

lemma generateEmbeddings_append:
  "generateEmbeddings w (xs @ ys) =
     (fst (generateEmbeddings w xs) @ fst (generateEmbeddings (snd (generateEmbeddings w xs)) ys),
      snd (generateEmbeddings (snd (generateEmbeddings w xs)) ys))"
  by (induction xs arbitrary: w) (simp_all add: split_beta Let_def)

lemma generateEmbeddings_frame [simp]:
  "cachedData (snd (generateEmbeddings w cs)) = cachedData w"
  "io_log (snd (generateEmbeddings w cs)) = io_log w @ map (\<lambda>c. EmbeddingsCreate (text c)) cs"
  "clock (snd (generateEmbeddings w cs)) = clock w"
  by (induction cs arbitrary: w) (simp_all add: split_beta Let_def)

lemma generateEmbeddings_result:
  "length (fst (generateEmbeddings w cs)) = length cs"
  "map text (fst (generateEmbeddings w cs)) = map text cs"
  "map source (fst (generateEmbeddings w cs)) = map source cs"
  by (induction cs arbitrary: w) (simp_all add: split_beta Let_def)

lemma generateEmbeddings_defined:
  "c \<in> set (fst (generateEmbeddings w cs)) \<Longrightarrow> embedding c \<noteq> None"
  by (induction cs arbitrary: w) (auto simp: split_beta Let_def)

lemma generateEmbeddings_nth:
  assumes "i < length cs"
  shows "fst (generateEmbeddings w cs) ! i =
     (cs ! i)\<lparr>embedding := Some (fst (embedding_of (snd (generateEmbeddings w (take i cs))) (text (cs ! i))))\<rparr>"
proof -
  have cs: "cs = take i cs @ cs ! i # drop (Suc i) cs"
    using assms by (simp add: id_take_nth_drop)
  have "fst (generateEmbeddings w cs) ! i
      = fst (generateEmbeddings w (take i cs @ cs ! i # drop (Suc i) cs)) ! i"
    using cs by simp
  also have "\<dots> = fst (generateEmbeddings (snd (generateEmbeddings w (take i cs))) (cs ! i # drop (Suc i) cs)) ! 0"
    using assms
    by (simp add: generateEmbeddings_append nth_append generateEmbeddings_result)
  also have "\<dots> = (cs ! i)\<lparr>embedding := Some (fst (embedding_of (snd (generateEmbeddings w (take i cs))) (text (cs ! i))))\<rparr>"
    by (simp add: split_beta Let_def)
  finally show ?thesis .
qed

lemma readFileSync_frame [simp]:
  "cachedData (snd (readFileSync w file)) = cachedData w"
  "io_log (snd (readFileSync w file)) = io_log w @ [ReadFile file]"
  "clock (snd (readFileSync w file)) = clock w"
  by (simp_all add: readFileSync_def)

lemma chunk_files_frame [simp]:
  "cachedData (snd (chunk_files w files)) = cachedData w"
  "clock (snd (chunk_files w files)) = clock w"
  "randoms (snd (chunk_files w files)) = randoms w"
  "embedding_service (snd (chunk_files w files)) = embedding_service w"
  by (induction files arbitrary: w) (simp_all add: readFileSync_def split_beta split: sum.splits option.splits)


lemma chunk_files_error: "fst (chunk_files w files) = Inl e \<Longrightarrow> e = FsError"
  by (induction files arbitrary: w) (auto simp: readFileSync_def split_beta split: sum.splits option.splits)

lemma loadAndChunkFiles_frame [simp]:
  "cachedData (snd (loadAndChunkFiles w)) = cachedData w"
  "clock (snd (loadAndChunkFiles w)) = clock w"
  "randoms (snd (loadAndChunkFiles w)) = randoms w"
  "embedding_service (snd (loadAndChunkFiles w)) = embedding_service w"
  by (simp_all add: loadAndChunkFiles_def readdirSync_def split: option.splits)


lemma loadAndChunkFiles_error: "fst (loadAndChunkFiles w) = Inl e \<Longrightarrow> e = FsError"
  by (auto simp: loadAndChunkFiles_def readdirSync_def split: option.splits dest: chunk_files_error)

lemma chat_frame [simp]:
  "cachedData (snd (chat_completions_create w c q)) = cachedData w"
  "io_log (snd (chat_completions_create w c q)) = io_log w @ [ChatCreate c q]"
  by (simp_all add: chat_completions_create_def)

lemma chat_error: "fst (chat_completions_create w c q) = Inl e \<Longrightarrow> e = ChatError"
  by (simp add: chat_completions_create_def split: option.splits)

lemma rebuild_cases:
  "(case fst (rebuild w) of
      Inl e \<Rightarrow> e = FsError \<and> cachedData (snd (rebuild w)) = cachedData w
    | Inr cs \<Rightarrow> cachedData (snd (rebuild w)) = Some \<lparr>chunks = cs, timestamp = clock w 0\<rparr>
               \<and> (\<forall>c\<in>set cs. embedding c \<noteq> None))"
proof -
  obtain r w1 where l: "loadAndChunkFiles w = (r, w1)" by (cases "loadAndChunkFiles w")
  have f: "cachedData w1 = cachedData w" "clock w1 = clock w"
    using loadAndChunkFiles_frame [of w] l by simp_all
  show ?thesis
  proof (cases r)
    case (Inl e)
    then show ?thesis using loadAndChunkFiles_error [of w e] l f by (simp add: rebuild_def)
  next
    case (Inr cs)
    then show ?thesis using l f
      by (simp add: rebuild_def split_beta Let_def generateEmbeddings_defined)
  qed
qed


subsection \<open>The corpus cache\<close>


lemma chunk_file_price:
  "chunk_file (lit ''precios.txt'') (lit ''Price: $999'')
     = [\<lparr>text = lit ''Price: $999'', source = lit ''precios.txt'', embedding = None\<rparr>]"
  by (simp add: chunk_file_def flush_def trim_def isWhiteSpace_def lit_def LF_def)

lemma loadAndChunkFiles_price:
  assumes "fs_readdir w = Some [lit ''precios.txt'']"
    and "fs_readFile w = (\<lambda>f. Some (lit ''Price: $999''))"
  shows "fst (loadAndChunkFiles w)
     = Inr [\<lparr>text = lit ''Price: $999'', source = lit ''precios.txt'', embedding = None\<rparr>]"
proof -
  have "endsWith (lit ''precios.txt'') (lit ''.txt'')"
    by (simp add: endsWith_def lit_def)
  then show ?thesis
    using assms by (simp add: loadAndChunkFiles_def readdirSync_def readFileSync_def chunk_file_price)
qed

lemma rebuild_price_offline:
  assumes "fs_readdir w = Some [lit ''precios.txt'']"
    and "fs_readFile w = (\<lambda>f. Some (lit ''Price: $999''))"
    and "embedding_service w = (\<lambda>n input. None)"
  shows "fst (rebuild w)
     = Inr [\<lparr>text = lit ''Price: $999'', source = lit ''precios.txt'',
             embedding = Some (map (randoms w) [0..<768])\<rparr>]"
proof -
  obtain r w1 where l: "loadAndChunkFiles w = (r, w1)" by (cases "loadAndChunkFiles w")
  have r: "r = Inr [\<lparr>text = lit ''Price: $999'', source = lit ''precios.txt'', embedding = None\<rparr>]"
    using loadAndChunkFiles_price [OF assms(1,2)] l by simp
  have w1: "embedding_service w1 = (\<lambda>n input. None)" "randoms w1 = randoms w"
    using loadAndChunkFiles_frame [of w] l assms(3) by simp_all
  have "fst (request_embedding w1 (lit ''Price: $999'')) = Inl EmbeddingError"
    by (simp add: request_embedding_def embeddings_create_def w1)
  then have "fst (embedding_of w1 (lit ''Price: $999'')) = map (randoms w) [0..<768]"
    using embedding_of_failure [of w1 "lit ''Price: $999''" EmbeddingError] w1 by simp
  then show ?thesis
    by (simp add: rebuild_def l r split_beta Let_def)
qed


subsection \<open>Embedding the corpus\<close>

lemma score_chunks_cases:
  "(case score_chunks q cs of
      Inl e \<Rightarrow> e = TypeError \<and> (\<exists>c\<in>set cs. embedding c = None)
    | Inr scored \<Rightarrow>
        (\<forall>c\<in>set cs. embedding c \<noteq> None)
        \<and> length scored = length cs
        \<and> map text scored = map text cs
        \<and> map source scored = map source cs
        \<and> map score scored = map (\<lambda>c. cosineSimilarity q (the (embedding c))) cs)"
  by (induction cs) (auto split: sum.splits option.splits)

lemma scoredChunks_error: "scoredChunks q cs = Inl e \<Longrightarrow> e = TypeError"
  using score_chunks_cases [where q = q and cs = cs] by (auto simp: scoredChunks_def split: sum.splits)

lemma scoredChunks_defined:
  "\<forall>c\<in>set cs. embedding c \<noteq> None \<Longrightarrow> \<exists>ranked. scoredChunks q cs = Inr ranked"
  using score_chunks_cases [where q = q and cs = cs] by (auto simp: scoredChunks_def split: sum.splits)

lemma getEmbeddings_error: "fst (getEmbeddings w) = Inl e \<Longrightarrow> e = FsError"
  using rebuild_cases [of w] rebuild_cases [of "snd (Date_now w)"]
  by (auto simp: getEmbeddings_def split_beta Let_def split: option.splits if_splits sum.splits)

lemma getEmbeddings_cache_ok:
  assumes "cache_ok w"
  shows "cache_ok (snd (getEmbeddings w))"
    and "fst (getEmbeddings w) = Inr cs \<Longrightarrow> c \<in> set cs \<Longrightarrow> embedding c \<noteq> None"
  using assms rebuild_cases [of w] rebuild_cases [of "snd (Date_now w)"]
  by (auto simp: cache_ok_def getEmbeddings_def split_beta Let_def
           split: option.splits if_splits sum.splits)

lemma POST_with_cache:
  "cachedData (snd (POST_with ctx w req)) = cachedData w
   \<or> cachedData (snd (POST_with ctx w req)) = cachedData (snd (getEmbeddings w))"
  by (auto simp: POST_with_def split_beta Let_def split: request.splits option.splits sum.splits)

lemma POST_with_cache_ok:
  assumes "cache_ok w"
  shows "cache_ok (snd (POST_with ctx w req))"
  using POST_with_cache [of ctx w req] getEmbeddings_cache_ok(1) [OF assms] assms
  by (auto simp: cache_ok_def)

lemma reachable_cache_ok: "reachable w \<Longrightarrow> cache_ok w"
proof (induction rule: reachable.induct)
  case (start w)
  then show ?case by (simp add: cache_ok_def)
next
  case (request1 w req)
  then show ?case by (simp add: POST1_def POST_with_cache_ok)
next
  case (request2 w req)
  then show ?case by (simp add: POST2_def POST_with_cache_ok)
next
  case (outside w w')
  then show ?case by (simp add: cache_ok_def)
qed

lemma POST_with_errors:
  assumes "fst (POST_with ctx w req) = ServerError e"
  shows "e = SyntaxError \<or> e = FsError \<or> e = TypeError \<or> e = ChatError"
  using assms getEmbeddings_error [of w] scoredChunks_error chat_error
  by (auto simp: POST_with_def split_beta Let_def
           split: request.splits option.splits sum.splits if_splits)

lemma POST_with_no_TypeError:
  assumes "cache_ok w"
  shows "fst (POST_with ctx w req) \<noteq> ServerError TypeError"
proof
  assume a: "fst (POST_with ctx w req) = ServerError TypeError"
  then obtain q where q: "req = Question (Some q)" "q \<noteq> []"
    by (auto simp: POST_with_def split: request.splits option.splits if_splits)
  obtain r w1 where g: "getEmbeddings w = (r, w1)" by (cases "getEmbeddings w")
  show False
  proof (cases r)
    case (Inl e)
    then have "e = FsError" using getEmbeddings_error [of w e] g by simp
    then show False using a q g Inl by (simp add: POST_with_def)
  next
    case (Inr cs)
    then have "\<forall>c\<in>set cs. embedding c \<noteq> None"
      using getEmbeddings_cache_ok(2) [OF assms, of cs] g by simp
    then obtain ranked where "scoredChunks (fst (embedding_of w1 q)) cs = Inr ranked"
      using scoredChunks_defined by blast
    then show False using a q g Inr chat_error
      by (auto simp: POST_with_def split_beta Let_def split: sum.splits)
  qed
qed

text \<open>
  Claim C8. \<open>generateEmbeddings\<close> processes every chunk whatever the service does: the
  result has the chunks of the input, in order, with their texts and sources; the log
  shows one service call per chunk, in order; and the embedding of chunk \<open>i\<close> is what
  the \<^verbatim>\<open>try\<close>/\<^verbatim>\<open>catch\<close> yields for its text in the state left by the chunks before it (the
  service's vector, or the fallback when the call fails). No response of the handler is a
  server error carrying an embedding-service failure; in the states the module can reach,
  a server error is a request that cannot be parsed, a file that cannot be read or a
  failure of the generation service.
\<close>

theorem generateEmbeddings_processes_every_chunk:
  "length (fst (generateEmbeddings w cs)) = length cs
   \<and> map text (fst (generateEmbeddings w cs)) = map text cs
   \<and> map source (fst (generateEmbeddings w cs)) = map source cs
   \<and> io_log (snd (generateEmbeddings w cs)) = io_log w @ map (\<lambda>c. EmbeddingsCreate (text c)) cs
   \<and> (\<forall>i<length cs.
         embedding (fst (generateEmbeddings w cs) ! i)
           = Some (fst (embedding_of (snd (generateEmbeddings w (take i cs))) (text (cs ! i)))))
   \<and> fst (POST1 w req) \<noteq> ServerError EmbeddingError
   \<and> fst (POST2 w req) \<noteq> ServerError EmbeddingError
   \<and> (reachable w \<and> (fst (POST1 w req) = ServerError e \<or> fst (POST2 w req) = ServerError e)
        \<longrightarrow> e = SyntaxError \<or> e = FsError \<or> e = ChatError)"
proof -
  have a: "fst (POST_with ctx w req) \<noteq> ServerError EmbeddingError" for ctx
    using POST_with_errors [of ctx w req EmbeddingError] by auto
  have b: "e = SyntaxError \<or> e = FsError \<or> e = ChatError"
    if "reachable w" and "fst (POST_with ctx w req) = ServerError e" for ctx
    using POST_with_errors [OF that(2)] POST_with_no_TypeError [OF reachable_cache_ok [OF that(1)], of ctx req]
      that(2) by auto
  show ?thesis
    using a b by (auto simp: generateEmbeddings_result generateEmbeddings_nth POST1_def POST2_def)
qed

theorem generateEmbeddings_processes_every_chunk_witness:
  "fst (request_embedding offline_world (lit ''uno'')) = Inl EmbeddingError
   \<and> reachable offline_world
   \<and> (1::nat) < length [\<lparr>text = lit ''uno'', source = lit ''a.txt'', embedding = None\<rparr>,
                     \<lparr>text = lit ''dos'', source = lit ''a.txt'', embedding = None\<rparr>]
   \<and> length (fst (generateEmbeddings offline_world
        [\<lparr>text = lit ''uno'', source = lit ''a.txt'', embedding = None\<rparr>,
         \<lparr>text = lit ''dos'', source = lit ''a.txt'', embedding = None\<rparr>])) = 2
   \<and> io_log (snd (generateEmbeddings offline_world
        [\<lparr>text = lit ''uno'', source = lit ''a.txt'', embedding = None\<rparr>,
         \<lparr>text = lit ''dos'', source = lit ''a.txt'', embedding = None\<rparr>]))
       = [EmbeddingsCreate (lit ''uno''), EmbeddingsCreate (lit ''dos'')]
   \<and> embedding (fst (generateEmbeddings offline_world
        [\<lparr>text = lit ''uno'', source = lit ''a.txt'', embedding = None\<rparr>,
         \<lparr>text = lit ''dos'', source = lit ''a.txt'', embedding = None\<rparr>]) ! 1)
       = Some (fst (embedding_of (snd (embedding_of offline_world (lit ''uno''))) (lit ''dos'')))"
  using generateEmbeddings_processes_every_chunk [of offline_world
        "[\<lparr>text = lit ''uno'', source = lit ''a.txt'', embedding = None\<rparr>,
         \<lparr>text = lit ''dos'', source = lit ''a.txt'', embedding = None\<rparr>]"]
    offline_fails [of "lit ''uno''"] reachable.start [of offline_world]
  by (simp add: split_beta Let_def offline_world_def)

text \<open>
  Claim C10. In every state the module can reach, each chunk of the list that
  \<open>getEmbeddings\<close> returns has an embedding, so the ranking step's unchecked access
  succeeds and no request ends in the TypeError of an absent embedding.
\<close>

theorem embeddings_always_defined:
  assumes "reachable w" and "fst (getEmbeddings w) = Inr cs"
  shows "(\<forall>c\<in>set cs. \<exists>v. embedding c = Some v)
         \<and> (\<exists>ranked. scoredChunks q cs = Inr ranked)
         \<and> fst (POST1 w req) \<noteq> ServerError TypeError
         \<and> fst (POST2 w req) \<noteq> ServerError TypeError"
proof -
  have ok: "cache_ok w" using assms(1) by (rule reachable_cache_ok)
  have d: "\<forall>c\<in>set cs. embedding c \<noteq> None"
    using getEmbeddings_cache_ok(2) [OF ok assms(2)] by blast
  then have "\<exists>ranked. scoredChunks q cs = Inr ranked"
    by (rule scoredChunks_defined)
  with d show ?thesis
    using POST_with_no_TypeError [OF ok] by (auto simp: POST1_def POST2_def)
qed

theorem embeddings_always_defined_witness:
  "reachable offline_world
   \<and> fst (getEmbeddings offline_world)
       = Inr [\<lparr>text = lit ''Price: $999'', source = lit ''precios.txt'',
               embedding = Some (map (randoms offline_world) [0..<768])\<rparr>]
   \<and> (\<exists>ranked. scoredChunks [1]
         [\<lparr>text = lit ''Price: $999'', source = lit ''precios.txt'',
           embedding = Some (map (randoms offline_world) [0..<768])\<rparr>] = Inr ranked)
   \<and> fst (POST2 offline_world (Question (Some (lit ''precio?'')))) \<noteq> ServerError TypeError"
proof -
  have r: "reachable offline_world"
    by (rule reachable.start) (simp add: offline_world_def)
  have "fst (rebuild offline_world)
       = Inr [\<lparr>text = lit ''Price: $999'', source = lit ''precios.txt'',
               embedding = Some (map (randoms offline_world) [0..<768])\<rparr>]"
    by (rule rebuild_price_offline) (simp_all add: offline_world_def)
  moreover have "getEmbeddings offline_world = rebuild offline_world"
    by (simp add: getEmbeddings_def offline_world_def)
  ultimately have g: "fst (getEmbeddings offline_world)
       = Inr [\<lparr>text = lit ''Price: $999'', source = lit ''precios.txt'',
               embedding = Some (map (randoms offline_world) [0..<768])\<rparr>]"
    by simp
  show ?thesis
    using embeddings_always_defined [OF r g, of "[1]" "Question (Some (lit ''precio?''))"] r g
    by simp
qed

subsection \<open>Ranking\<close>

lemma score_chunks_by_cosine: "score_chunks_by cosineSimilarity q cs = score_chunks q cs"
  by (induction cs) (simp_all split: option.splits sum.splits)

lemma scoredChunks_by_cosine: "scoredChunks_by cosineSimilarity q cs = scoredChunks q cs"
  by (simp add: scoredChunks_by_def scoredChunks_def score_chunks_by_cosine)

lemma score_chunks_by_cases:
  "(case score_chunks_by similarity q cs of
      Inl e \<Rightarrow> e = TypeError \<and> (\<exists>c\<in>set cs. embedding c = None)
    | Inr scored \<Rightarrow>
        (\<forall>c\<in>set cs. embedding c \<noteq> None)
        \<and> length scored = length cs
        \<and> map text scored = map text cs
        \<and> map source scored = map source cs
        \<and> map score scored = map (\<lambda>c. similarity q (the (embedding c))) cs)"
  by (induction cs) (auto split: sum.splits option.splits)

lemma length_insert_sorted [simp]: "length (insert_sorted cmp x ys) = Suc (length ys)"
  by (induction ys) simp_all

lemma length_js_sort [simp]: "length (js_sort cmp xs) = length xs"
  by (induction xs) simp_all

lemma mset_insert_sorted [simp]: "mset (insert_sorted cmp x ys) = add_mset x (mset ys)"
  by (induction ys) simp_all

lemma mset_js_sort [simp]: "mset (js_sort cmp xs) = mset xs"
  by (induction xs) simp_all

lemma arctan_twice:
  "\<not> pi \<le> arctan x * 2" "- (arctan x * 2) \<le> pi" "arctan x * 2 \<le> pi"
  "\<not> pi \<le> - (arctan x * 2)" "arctan x * 2 \<noteq> pi" "- (arctan x * 2) \<noteq> pi"
  "pi \<noteq> arctan x * 2" "pi \<noteq> - (arctan x * 2)" "\<not> pi \<le> 0"
  using arctan_ubound [of x] arctan_lbound [of x] pi_gt_zero by linarith+

lemma order_key_le:
  assumes "a \<noteq> NaN" "b \<noteq> NaN"
  shows "order_key a \<le> order_key b \<longleftrightarrow> js_ge a b"
  using assms by (cases a; cases b) (auto simp: order_key_def js_ge_def arctan_le_iff arctan_twice)

lemma order_key_eq:
  assumes "a \<noteq> NaN" "b \<noteq> NaN"
  shows "order_key a = order_key b \<longleftrightarrow> a = b"
  using assms by (cases a; cases b) (auto simp: order_key_def arctan_eq_iff arctan_twice)

lemma comparator_key:
  assumes "score x \<noteq> NaN" "score y \<noteq> NaN"
  shows "js_gt (by_score_desc x y) (Num 0) \<longleftrightarrow> \<not> order_key (score x) \<le> order_key (score y)"
  using assms
  by (cases "score x"; cases "score y")
     (auto simp: by_score_desc_def js_sub_def order_key_def arctan_le_iff arctan_twice)

lemma insert_sorted_insort:
  assumes "\<forall>c\<in>set (x # ys). score c \<noteq> NaN"
  shows "insert_sorted by_score_desc x ys = insort_key (\<lambda>c. order_key (score c)) x ys"
  using assms
proof (induction ys)
  case Nil
  show ?case by simp
next
  case (Cons y ys)
  have "js_gt (by_score_desc x y) (Num 0) \<longleftrightarrow> \<not> order_key (score x) \<le> order_key (score y)"
    using Cons.prems by (intro comparator_key) simp_all
  then show ?case using Cons by simp
qed

lemma js_sort_sort_key:
  assumes "\<forall>c\<in>set xs. score c \<noteq> NaN"
  shows "js_sort by_score_desc xs = sort_key (\<lambda>c. order_key (score c)) xs"
  using assms
proof (induction xs)
  case Nil
  show ?case by simp
next
  case (Cons x xs)
  then have ih: "js_sort by_score_desc xs = sort_key (\<lambda>c. order_key (score c)) xs" by simp
  have "\<forall>c\<in>set (x # sort_key (\<lambda>c. order_key (score c)) xs). score c \<noteq> NaN"
    using Cons.prems by simp
  then show ?case
    by (simp add: ih insert_sorted_insort)
qed

lemma sorted_key_iff:
  assumes "\<forall>c\<in>set xs. score c \<noteq> NaN"
  shows "sorted (map (\<lambda>c. order_key (score c)) xs) \<longleftrightarrow> sorted_wrt js_ge (map score xs)"
  using assms
proof (induction xs)
  case Nil
  show ?case by simp
next
  case (Cons x xs)
  have "order_key (score x) \<le> order_key (score y) \<longleftrightarrow> js_ge (score x) (score y)"
    if y: "y \<in> set xs" for y
    using Cons.prems y by (intro order_key_le) simp_all
  then show ?case using Cons by auto
qed

lemma filter_score_key:
  assumes "\<forall>c\<in>set xs. score c \<noteq> NaN" and "s \<noteq> NaN"
  shows "filter (\<lambda>c. score c = s) xs = filter (\<lambda>c. order_key (score c) = order_key s) xs"
  using assms by (intro filter_cong) (simp_all add: order_key_eq)

lemma filter_score_NaN:
  assumes "\<forall>c\<in>set xs. score c \<noteq> NaN"
  shows "filter (\<lambda>c. score c = NaN) xs = []"
  using assms by (simp add: filter_empty_conv)

lemma stable_scores:
  assumes "\<forall>c\<in>set xs. score c \<noteq> NaN"
  shows "filter (\<lambda>c. score c = s) (sort_key (\<lambda>c. order_key (score c)) xs)
           = filter (\<lambda>c. score c = s) xs"
proof (cases "s = NaN")
  case True
  have "\<forall>c\<in>set (sort_key (\<lambda>c. order_key (score c)) xs). score c \<noteq> NaN" using assms by simp
  then show ?thesis using True assms by (simp add: filter_score_NaN)
next
  case False
  have "\<forall>c\<in>set (sort_key (\<lambda>c. order_key (score c)) xs). score c \<noteq> NaN" using assms by simp
  then have "filter (\<lambda>c. score c = s) (sort_key (\<lambda>c. order_key (score c)) xs)
      = filter (\<lambda>c. order_key (score c) = order_key s) (sort_key (\<lambda>c. order_key (score c)) xs)"
    using False by (rule filter_score_key)
  also have "\<dots> = filter (\<lambda>c. order_key (score c) = order_key s) xs"
    by (rule sort_key_stable)
  also have "\<dots> = filter (\<lambda>c. score c = s) xs"
    using filter_score_key [OF assms False] by simp
  finally show ?thesis .
qed

lemma stable_sort_unique:
  assumes n: "\<forall>c\<in>set xs. score c \<noteq> NaN"
    and m: "mset ys = mset xs"
    and s: "sorted_wrt js_ge (map score ys)"
    and t: "\<forall>s. filter (\<lambda>c. score c = s) ys = filter (\<lambda>c. score c = s) xs"
  shows "ys = js_sort by_score_desc xs"
proof -
  have ny: "\<forall>c\<in>set ys. score c \<noteq> NaN" using n m by (metis set_mset_mset)
  have "sort_key (\<lambda>c. order_key (score c)) xs = ys"
  proof (rule properties_for_sort_key)
    show "mset ys = mset xs" by (rule m)
    show "sorted (map (\<lambda>c. order_key (score c)) ys)"
      using s sorted_key_iff [OF ny] by simp
    show "filter (\<lambda>x. order_key (score k) = order_key (score x)) ys
        = filter (\<lambda>x. order_key (score k) = order_key (score x)) xs" if k: "k \<in> set ys" for k
    proof -
      have sk: "score k \<noteq> NaN" using ny k by simp
      have "filter (\<lambda>x. order_key (score k) = order_key (score x)) ys
          = filter (\<lambda>c. order_key (score c) = order_key (score k)) ys"
        by (rule filter_cong) auto
      also have "\<dots> = filter (\<lambda>c. score c = score k) ys"
        using filter_score_key [OF ny sk] by simp
      also have "\<dots> = filter (\<lambda>c. score c = score k) xs" using t by simp
      also have "\<dots> = filter (\<lambda>c. order_key (score c) = order_key (score k)) xs"
        using filter_score_key [OF n sk] by simp
      also have "\<dots> = filter (\<lambda>x. order_key (score k) = order_key (score x)) xs"
        by (rule filter_cong) auto
      finally show ?thesis .
    qed
  qed
  then show ?thesis using js_sort_sort_key [OF n] by simp
qed

lemma four_chunks_ranked:
  "scoredChunks [1, 0] four_chunks
     = Inr [\<lparr>text = lit ''b'', source = lit ''uno.txt'', embedding = Some [1, 0], score = Num 1\<rparr>,
            \<lparr>text = lit ''c'', source = lit ''dos.md'', embedding = Some [1, 0], score = Num 1\<rparr>,
            \<lparr>text = lit ''a'', source = lit ''uno.txt'', embedding = Some [0, 1], score = Num 0\<rparr>]"
  by (simp add: four_chunks_def scoredChunks_def cosineSimilarity_def magnitude_def at_num_def
        by_score_desc_def js_sub_def)

lemma four_chunks_overflowing:
  "scoredChunks_by overflowing [1, 0] four_chunks
     = Inr [\<lparr>text = lit ''b'', source = lit ''uno.txt'', embedding = Some [1, 0], score = PosInf\<rparr>,
            \<lparr>text = lit ''c'', source = lit ''dos.md'', embedding = Some [1, 0], score = PosInf\<rparr>,
            \<lparr>text = lit ''a'', source = lit ''uno.txt'', embedding = Some [0, 1], score = Num 0\<rparr>]"
  by (simp add: four_chunks_def scoredChunks_by_def overflowing_def by_score_desc_def js_sub_def)

text \<open>
  Claim C5, as the code has it. Whatever function computes the scores, the ranked list has
  \<open>min 3 n\<close> entries for \<open>n\<close> chunks, and when no similarity score is \<open>NaN\<close> (a score
  may be infinite) it is the first three entries of the one permutation of the scored
  chunks that is in descending order of score and keeps chunks of equal score in corpus
  order. With \<open>cosineSimilarity\<close> as the function this is the ranking step of the
  handler.
\<close>

theorem ranking_sorted_stable_top3:
  "(\<forall>ranked. scoredChunks_by similarity q cs = Inr ranked \<longrightarrow> length ranked = min 3 (length cs))
   \<and> ((\<forall>c\<in>set cs. \<exists>e. embedding c = Some e \<and> similarity q e \<noteq> NaN) \<longrightarrow>
        (\<exists>scored full.
            score_chunks_by similarity q cs = Inr scored
          \<and> map text scored = map text cs
          \<and> map source scored = map source cs
          \<and> map score scored = map (\<lambda>c. similarity q (the (embedding c))) cs
          \<and> mset full = mset scored
          \<and> sorted_wrt js_ge (map score full)
          \<and> (\<forall>s. filter (\<lambda>c. score c = s) full = filter (\<lambda>c. score c = s) scored)
          \<and> (\<forall>other. mset other = mset scored
                     \<and> sorted_wrt js_ge (map score other)
                     \<and> (\<forall>s. filter (\<lambda>c. score c = s) other = filter (\<lambda>c. score c = s) scored)
                 \<longrightarrow> other = full)
          \<and> scoredChunks_by similarity q cs = Inr (take 3 full)))
   \<and> scoredChunks q cs = scoredChunks_by cosineSimilarity q cs"
proof (intro conjI allI impI)
  fix ranked
  assume "scoredChunks_by similarity q cs = Inr ranked"
  then show "length ranked = min 3 (length cs)"
    using score_chunks_by_cases [where similarity = similarity and q = q and cs = cs]
    by (auto simp: scoredChunks_by_def split: sum.splits)
next
  show "scoredChunks q cs = scoredChunks_by cosineSimilarity q cs"
    by (simp add: scoredChunks_by_cosine)
next
  assume a: "\<forall>c\<in>set cs. \<exists>e. embedding c = Some e \<and> similarity q e \<noteq> NaN"
  then have d: "\<forall>c\<in>set cs. embedding c \<noteq> None" by auto
  then obtain scored where s: "score_chunks_by similarity q cs = Inr scored"
    using score_chunks_by_cases [where similarity = similarity and q = q and cs = cs]
    by (cases "score_chunks_by similarity q cs") auto
  then have p: "map text scored = map text cs" "map source scored = map source cs"
    "map score scored = map (\<lambda>c. similarity q (the (embedding c))) cs"
    using score_chunks_by_cases [where similarity = similarity and q = q and cs = cs] by simp_all
  have n: "\<forall>c\<in>set scored. score c \<noteq> NaN"
  proof
    fix c assume "c \<in> set scored"
    then have "score c \<in> set (map (\<lambda>c. similarity q (the (embedding c))) cs)"
      using p(3) by (metis image_eqI set_map)
    then obtain c' where "c' \<in> set cs" "score c = similarity q (the (embedding c'))"
      by auto
    then show "score c \<noteq> NaN" using a by auto
  qed
  let ?full = "js_sort by_score_desc scored"
  have f: "?full = sort_key (\<lambda>c. order_key (score c)) scored" using n by (rule js_sort_sort_key)
  have nf: "\<forall>c\<in>set ?full. score c \<noteq> NaN" unfolding f using n by simp
  have "sorted (map (\<lambda>c. order_key (score c)) ?full)" unfolding f by simp
  then have 1: "sorted_wrt js_ge (map score ?full)"
    using sorted_key_iff [OF nf] by simp
  have 2: "\<forall>s. filter (\<lambda>c. score c = s) ?full = filter (\<lambda>c. score c = s) scored"
    unfolding f using stable_scores [OF n] by simp
  have 3: "scoredChunks_by similarity q cs = Inr (take 3 ?full)"
    by (simp add: scoredChunks_by_def s)
  have 4: "mset ?full = mset scored" by simp
  have 5: "\<forall>other. mset other = mset scored
                     \<and> sorted_wrt js_ge (map score other)
                     \<and> (\<forall>s. filter (\<lambda>c. score c = s) other = filter (\<lambda>c. score c = s) scored)
                 \<longrightarrow> other = ?full"
    using stable_sort_unique [OF n] by blast
  show "\<exists>scored full.
            score_chunks_by similarity q cs = Inr scored
          \<and> map text scored = map text cs
          \<and> map source scored = map source cs
          \<and> map score scored = map (\<lambda>c. similarity q (the (embedding c))) cs
          \<and> mset full = mset scored
          \<and> sorted_wrt js_ge (map score full)
          \<and> (\<forall>s. filter (\<lambda>c. score c = s) full = filter (\<lambda>c. score c = s) scored)
          \<and> (\<forall>other. mset other = mset scored
                     \<and> sorted_wrt js_ge (map score other)
                     \<and> (\<forall>s. filter (\<lambda>c. score c = s) other = filter (\<lambda>c. score c = s) scored)
                 \<longrightarrow> other = full)
          \<and> scoredChunks_by similarity q cs = Inr (take 3 full)"
    using s p 1 2 3 4 5 by blast
qed

theorem ranking_sorted_stable_top3_witness:
  "cosineSimilarity [1, 0] [0, 1] \<noteq> NaN
   \<and> cosineSimilarity [1, 0] [1, 0] \<noteq> NaN
   \<and> scoredChunks_by cosineSimilarity [1, 0] four_chunks
     = Inr [\<lparr>text = lit ''b'', source = lit ''uno.txt'', embedding = Some [1, 0], score = Num 1\<rparr>,
            \<lparr>text = lit ''c'', source = lit ''dos.md'', embedding = Some [1, 0], score = Num 1\<rparr>,
            \<lparr>text = lit ''a'', source = lit ''uno.txt'', embedding = Some [0, 1], score = Num 0\<rparr>]
   \<and> length [lit ''b'', lit ''c'', lit ''a''] = min 3 (length four_chunks)
   \<and> (\<exists>scored full.
          score_chunks_by cosineSimilarity [1, 0] four_chunks = Inr scored
        \<and> mset full = mset scored
        \<and> sorted_wrt js_ge (map score full)
        \<and> (\<forall>s. filter (\<lambda>c. score c = s) full = filter (\<lambda>c. score c = s) scored)
        \<and> scoredChunks_by cosineSimilarity [1, 0] four_chunks = Inr (take 3 full))
   \<and> overflowing [1, 0] [0, 1] \<noteq> NaN
   \<and> overflowing [1, 0] [1, 0] \<noteq> NaN
   \<and> scoredChunks_by overflowing [1, 0] four_chunks
     = Inr [\<lparr>text = lit ''b'', source = lit ''uno.txt'', embedding = Some [1, 0], score = PosInf\<rparr>,
            \<lparr>text = lit ''c'', source = lit ''dos.md'', embedding = Some [1, 0], score = PosInf\<rparr>,
            \<lparr>text = lit ''a'', source = lit ''uno.txt'', embedding = Some [0, 1], score = Num 0\<rparr>]
   \<and> (\<exists>scored full.
          score_chunks_by overflowing [1, 0] four_chunks = Inr scored
        \<and> mset full = mset scored
        \<and> sorted_wrt js_ge (map score full)
        \<and> (\<forall>s. filter (\<lambda>c. score c = s) full = filter (\<lambda>c. score c = s) scored)
        \<and> scoredChunks_by overflowing [1, 0] four_chunks = Inr (take 3 full))"
proof -
  have n: "cosineSimilarity [1, 0] [0, 1] \<noteq> NaN" "cosineSimilarity [1, 0] [1, 0] \<noteq> NaN"
    by (simp_all add: cosineSimilarity_def magnitude_def at_num_def)
  then have h: "\<forall>c\<in>set four_chunks. \<exists>e. embedding c = Some e \<and> cosineSimilarity [1, 0] e \<noteq> NaN"
    by (simp add: four_chunks_def)
  have o: "overflowing [1, 0] [0, 1] \<noteq> NaN" "overflowing [1, 0] [1, 0] \<noteq> NaN"
    by (simp_all add: overflowing_def)
  then have g: "\<forall>c\<in>set four_chunks. \<exists>e. embedding c = Some e \<and> overflowing [1, 0] e \<noteq> NaN"
    by (simp add: four_chunks_def)
  have l: "length [lit ''b'', lit ''c'', lit ''a''] = min 3 (length four_chunks)"
    by (simp add: four_chunks_def)
  have r: "scoredChunks_by cosineSimilarity [1, 0] four_chunks
     = Inr [\<lparr>text = lit ''b'', source = lit ''uno.txt'', embedding = Some [1, 0], score = Num 1\<rparr>,
            \<lparr>text = lit ''c'', source = lit ''dos.md'', embedding = Some [1, 0], score = Num 1\<rparr>,
            \<lparr>text = lit ''a'', source = lit ''uno.txt'', embedding = Some [0, 1], score = Num 0\<rparr>]"
    using four_chunks_ranked by (simp add: scoredChunks_by_cosine)
  show ?thesis
    using ranking_sorted_stable_top3 [of cosineSimilarity "[1, 0]" four_chunks]
      ranking_sorted_stable_top3 [of overflowing "[1, 0]" four_chunks]
      h g n o l r four_chunks_overflowing
    by blast
qed

text \<open>
  The claim as stated fails: a chunk whose embedding is the zero vector scores \<open>NaN\<close>,
  the comparator returns \<open>NaN\<close> for it, and the ranked scores \<open>NaN, 1\<close> are not in
  descending order (nor would they be in the other order).
\<close>

theorem NaN_score_breaks_order:
  "scoredChunks [1]
     [\<lparr>text = lit ''a'', source = lit ''uno.txt'', embedding = Some [0]\<rparr>,
      \<lparr>text = lit ''b'', source = lit ''uno.txt'', embedding = Some [1]\<rparr>]
     = Inr [\<lparr>text = lit ''a'', source = lit ''uno.txt'', embedding = Some [0], score = NaN\<rparr>,
            \<lparr>text = lit ''b'', source = lit ''uno.txt'', embedding = Some [1], score = Num 1\<rparr>]
   \<and> \<not> sorted_wrt js_ge [NaN, Num 1]
   \<and> \<not> sorted_wrt js_ge [Num 1, NaN]"
  by (simp add: scoredChunks_def cosineSimilarity_def magnitude_def at_num_def inf_of_sign_def
        by_score_desc_def js_sub_def js_ge_def)

subsection \<open>The context\<close>

lemma POST_with_chat_event:
  assumes "q \<noteq> []"
    and "fst (getEmbeddings w) = Inr cs"
    and "scoredChunks (fst (embedding_of (snd (getEmbeddings w)) q)) cs = Inr ranked"
  shows "last (io_log (snd (POST_with ctx w (Question (Some q))))) = ChatCreate (ctx ranked) q"
proof -
  obtain r w1 where g: "getEmbeddings w = (r, w1)" by (cases "getEmbeddings w")
  obtain qe w2 where e: "embedding_of w1 q = (qe, w2)" by (cases "embedding_of w1 q")
  obtain a w3 where c: "chat_completions_create w2 (ctx ranked) q = (a, w3)"
    by (cases "chat_completions_create w2 (ctx ranked) q")
  have r: "r = Inr cs" using assms(2) g by simp
  have s: "scoredChunks qe cs = Inr ranked" using assms(3) g e by simp
  have l: "io_log w3 = io_log w2 @ [ChatCreate (ctx ranked) q]"
    using chat_frame(2) [of w2 "ctx ranked" q] c by simp
  have "snd (POST_with ctx w (Question (Some q))) = w3"
    using assms(1) by (simp add: POST_with_def g r e s c split: sum.splits)
  then show ?thesis using l by simp
qed

lemma cached_get: "getEmbeddings cached_world = (Inr [\<lparr>text = lit ''Price: $999'', source = lit ''precios.txt'',
                           embedding = Some [1]\<rparr>], cached_world\<lparr>clock := \<lambda>n. 1000\<rparr>)"
  by (simp add: getEmbeddings_def cached_world_def Date_now_def)

lemma cached_embed: "fst (embedding_of (cached_world\<lparr>clock := \<lambda>n. 1000\<rparr>) q) = [1]"
  by (simp add: embedding_of_def request_embedding_def embeddings_create_def cached_world_def)

lemma cached_rank: "scoredChunks [1] [\<lparr>text = lit ''Price: $999'', source = lit ''precios.txt'',
                           embedding = Some [1]\<rparr>] = Inr [price_chunk]"
  by (simp add: scoredChunks_def cosineSimilarity_def magnitude_def at_num_def price_chunk_def)

lemma context1_price:
  "context1 [price_chunk] = lit ''[Fuente 1: precios.txt]'' @ [LF] @ lit ''Price: $999''"
  by (simp add: context1_def price_chunk_def lit_def)

text \<open>
  Claim C4, as the code has it. The context passed to the generation service is built
  from the ranked chunks, in ranked order. In the second revision of the handler it is
  their raw texts separated by a blank line, with nothing of the sources in it. In the
  first revision each text comes under a label \<^verbatim>\<open>[Fuente i: source]\<close> and the chunks are
  separated by a rule \<^verbatim>\<open>---\<close> between blank lines.
\<close>

theorem context_passed_to_generation:
  assumes "q \<noteq> []"
    and "fst (getEmbeddings w) = Inr cs"
    and "scoredChunks (fst (embedding_of (snd (getEmbeddings w)) q)) cs = Inr ranked"
  shows "last (io_log (snd (POST2 w (Question (Some q)))))
           = ChatCreate (join [LF, LF] (map text ranked)) q
       \<and> last (io_log (snd (POST1 w (Question (Some q)))))
           = ChatCreate
               (join ([LF, LF] @ lit ''---'' @ [LF, LF])
                  (map (\<lambda>(chunk, i). lit ''[Fuente '' @ decimal (i + 1) @ lit '': ''
                                      @ source chunk @ lit '']'' @ [LF] @ text chunk)
                     (zip ranked [0..<length ranked]))) q"
  using POST_with_chat_event [OF assms, of context2] POST_with_chat_event [OF assms, of context1]
  by (simp add: POST1_def POST2_def context1_def context2_def)

theorem context_passed_witness:
  "lit ''precio?'' \<noteq> []
   \<and> fst (getEmbeddings cached_world) = Inr [\<lparr>text = lit ''Price: $999'', source = lit ''precios.txt'', embedding = Some [1]\<rparr>]
   \<and> scoredChunks (fst (embedding_of (snd (getEmbeddings cached_world)) (lit ''precio?'')))
        [\<lparr>text = lit ''Price: $999'', source = lit ''precios.txt'', embedding = Some [1]\<rparr>] = Inr [price_chunk]
   \<and> last (io_log (snd (POST2 cached_world (Question (Some (lit ''precio?''))))))
        = ChatCreate (lit ''Price: $999'') (lit ''precio?'')"
  using context_passed_to_generation [of "lit ''precio?''" cached_world
      "[\<lparr>text = lit ''Price: $999'', source = lit ''precios.txt'', embedding = Some [1]\<rparr>]" "[price_chunk]"]
  by (simp add: cached_get cached_embed cached_rank) (simp add: price_chunk_def lit_def)

text \<open>
  The claim as stated fails for the first revision: for the single chunk
  \<^verbatim>\<open>Price: $999\<close> of \<^verbatim>\<open>precios.txt\<close> the generation service receives the source label in
  the context.
\<close>

theorem first_revision_labels_context:
  "last (io_log (snd (POST1 cached_world (Question (Some (lit ''precio?''))))))
     = ChatCreate (lit ''[Fuente 1: precios.txt]'' @ [LF] @ lit ''Price: $999'') (lit ''precio?'')
   \<and> lit ''[Fuente 1: precios.txt]'' @ [LF] @ lit ''Price: $999'' \<noteq> join [LF, LF] (map text [price_chunk])"
proof -
  have "last (io_log (snd (POST_with context1 cached_world (Question (Some (lit ''precio?''))))))
     = ChatCreate (context1 [price_chunk]) (lit ''precio?'')"
    using POST_with_chat_event [of "lit ''precio?''" cached_world
      "[\<lparr>text = lit ''Price: $999'', source = lit ''precios.txt'', embedding = Some [1]\<rparr>]"
      "[price_chunk]" context1]
    by (simp add: cached_get cached_embed cached_rank) (simp add: lit_def)
  moreover have "lit ''[Fuente 1: precios.txt]'' @ [LF] @ lit ''Price: $999'' \<noteq> join [LF, LF] (map text [price_chunk])"
    by (simp add: price_chunk_def lit_def)
  ultimately show ?thesis
    by (simp add: POST1_def context1_price)
qed

subsection \<open>Citations\<close>

lemma embedding_of_chat [simp]:
  "chat_service (snd (embedding_of w input)) = chat_service w"
proof -
  obtain r w1 where rw: "request_embedding w input = (r, w1)"
    by (cases "request_embedding w input")
  then have "chat_service w1 = chat_service w"
    by (auto simp: request_embedding_def embeddings_create_def split: option.splits list.splits)
  then show ?thesis
    by (cases r) (simp_all add: embedding_of_def rw random_array_eq)
qed

lemma POST_with_Ok:
  assumes "fst (POST_with ctx w req) = Ok answer cites srcs"
  shows "\<exists>q cs ranked.
           req = Question (Some q)
         \<and> fst (getEmbeddings w) = Inr cs
         \<and> scoredChunks (fst (embedding_of (snd (getEmbeddings w)) q)) cs = Inr ranked
         \<and> cites = map citation ranked
         \<and> srcs = sources ranked"
  using assms
  by (auto simp: POST_with_def split_beta Let_def
           split: request.splits option.splits sum.splits if_splits)

lemma POST2_cached:
  "fst (POST2 cached_world (Question (Some (lit ''precio?''))))
     = Ok (Some (lit ''999'')) [citation price_chunk] [lit ''precios.txt'']"
proof -
  have q: "lit ''precio?'' \<noteq> []" by (simp add: lit_def)
  have c: "chat_service (cached_world\<lparr>clock := \<lambda>n. 1000\<rparr>) = (\<lambda>n context question. Some (Some (lit ''999'')))"
    by (simp add: cached_world_def)
  have s: "sources [price_chunk] = [lit ''precios.txt'']"
    by (simp add: sources_def price_chunk_def)
  show ?thesis
    using q by (simp add: POST2_def POST_with_def cached_get split_beta cached_embed cached_rank
        chat_completions_create_def c s)
qed

text \<open>
  Claim C9, as the code has it. In every successful response the citations are those of
  the ranked chunks, in order, and the excerpt of each is the first 200 code units of the
  chunk's text followed by the marker \<^verbatim>\<open>...\<close>, which is appended always, also when the
  text has 200 code units or fewer.
\<close>

theorem citation_marker_unconditional:
  assumes "fst (POST1 w req) = Ok answer cites srcs \<or> fst (POST2 w req) = Ok answer cites srcs"
  shows "\<exists>q cs ranked.
           req = Question (Some q)
         \<and> fst (getEmbeddings w) = Inr cs
         \<and> scoredChunks (fst (embedding_of (snd (getEmbeddings w)) q)) cs = Inr ranked
         \<and> length cites = length ranked
         \<and> (\<forall>i<length ranked.
               cite_text (cites ! i) = take 200 (text (ranked ! i)) @ lit ''...''
             \<and> length (cite_text (cites ! i)) = min 200 (length (text (ranked ! i))) + 3
             \<and> cite_source (cites ! i) = source (ranked ! i)
             \<and> relevance (cites ! i) = score (ranked ! i))"
proof -
  obtain ctx where "fst (POST_with ctx w req) = Ok answer cites srcs"
    using assms by (auto simp: POST1_def POST2_def)
  then obtain q cs ranked where r: "req = Question (Some q)" "fst (getEmbeddings w) = Inr cs"
      "scoredChunks (fst (embedding_of (snd (getEmbeddings w)) q)) cs = Inr ranked"
      "cites = map citation ranked"
    using POST_with_Ok by blast
  have h: "\<forall>i<length ranked.
               cite_text (cites ! i) = take 200 (text (ranked ! i)) @ lit ''...''
             \<and> length (cite_text (cites ! i)) = min 200 (length (text (ranked ! i))) + 3
             \<and> cite_source (cites ! i) = source (ranked ! i)
             \<and> relevance (cites ! i) = score (ranked ! i)"
    by (simp add: r(4) citation_def lit_def min.commute)
  have len: "length cites = length ranked" by (simp add: r(4))
  show ?thesis using r(1-3) len h by blast
qed

theorem citation_marker_unconditional_witness:
  "fst (POST2 cached_world (Question (Some (lit ''precio?''))))
     = Ok (Some (lit ''999''))
         [\<lparr>cite_source = lit ''precios.txt'', cite_text = lit ''Price: $999...'', relevance = Num 1\<rparr>]
         [lit ''precios.txt'']
   \<and> (\<exists>q cs ranked.
           Question (Some (lit ''precio?'')) = Question (Some q)
         \<and> fst (getEmbeddings cached_world) = Inr cs
         \<and> scoredChunks (fst (embedding_of (snd (getEmbeddings cached_world)) q)) cs = Inr ranked
         \<and> length [\<lparr>cite_source = lit ''precios.txt'', cite_text = lit ''Price: $999...'', relevance = Num 1\<rparr>] = length ranked)"
proof -
  have c: "citation price_chunk
      = \<lparr>cite_source = lit ''precios.txt'', cite_text = lit ''Price: $999...'', relevance = Num 1\<rparr>"
    by (simp add: citation_def price_chunk_def lit_def)
  have p: "fst (POST2 cached_world (Question (Some (lit ''precio?''))))
     = Ok (Some (lit ''999''))
         [\<lparr>cite_source = lit ''precios.txt'', cite_text = lit ''Price: $999...'', relevance = Num 1\<rparr>]
         [lit ''precios.txt'']"
    using POST2_cached c by simp
  show ?thesis
    using citation_marker_unconditional [of cached_world "Question (Some (lit ''precio?''))"
        "Some (lit ''999'')"
        "[\<lparr>cite_source = lit ''precios.txt'', cite_text = lit ''Price: $999...'', relevance = Num 1\<rparr>]"
        "[lit ''precios.txt'']"] p
    by blast
qed

text \<open>
  The claim as stated fails: the eleven characters \<^verbatim>\<open>Price: $999\<close> are cited with the
  marker.
\<close>

theorem short_text_gets_marker:
  "fst (POST2 cached_world (Question (Some (lit ''precio?''))))
     = Ok (Some (lit ''999''))
         [\<lparr>cite_source = lit ''precios.txt'', cite_text = lit ''Price: $999...'', relevance = Num 1\<rparr>]
         [lit ''precios.txt'']
   \<and> length (lit ''Price: $999'') \<le> 200
   \<and> lit ''Price: $999...'' \<noteq> lit ''Price: $999''"
proof -
  have c: "citation price_chunk
      = \<lparr>cite_source = lit ''precios.txt'', cite_text = lit ''Price: $999...'', relevance = Num 1\<rparr>"
    by (simp add: citation_def price_chunk_def lit_def)
  then show ?thesis using POST2_cached by (simp add: lit_def)
qed

subsection \<open>The chunker: lines and trimming\<close>

lemma split_lines_nonempty [simp]: "split_lines s \<noteq> []"
  by (induction s) simp_all

lemma split_lines_single: "LF \<notin> set l \<Longrightarrow> split_lines l = [l]"
  by (induction l) auto

lemma split_lines_no_LF: "l \<in> set (split_lines s) \<Longrightarrow> LF \<notin> set l"
proof (induction s arbitrary: l)
  case Nil
  then show ?case by simp
next
  case (Cons c s)
  obtain h t where ht: "split_lines s = h # t" by (cases "split_lines s") simp_all
  show ?case
  proof (cases "c = LF")
    case True
    then show ?thesis using Cons by auto
  next
    case False
    then have "l = c # h \<or> l \<in> set t" using Cons.prems ht by simp
    then show ?thesis using Cons.IH ht False by auto
  qed
qed

lemma split_lines_append:
  "split_lines (x @ y) =
     butlast (split_lines x) @ [last (split_lines x) @ hd (split_lines y)] @ tl (split_lines y)"
proof (induction x)
  case Nil
  show ?case by simp
next
  case (Cons c x)
  obtain h t where ht: "split_lines x = h # t" by (cases "split_lines x") simp_all
  show ?case
  proof (cases "c = LF")
    case True
    then show ?thesis using Cons by simp
  next
    case False
    then show ?thesis using Cons ht by (cases t) simp_all
  qed
qed

lemma split_lines_snoc_line:
  "LF \<notin> set line \<Longrightarrow> split_lines (cur @ [LF] @ line) = split_lines cur @ [line]"
  by (simp add: split_lines_append [of cur] split_lines_single)

lemma split_lines_Cons_line:
  "LF \<notin> set l \<Longrightarrow> split_lines (l @ LF # rest) = l # split_lines rest"
  by (simp add: split_lines_append [of l] split_lines_single)

lemma split_lines_subset: "l \<in> set (split_lines s) \<Longrightarrow> set l \<subseteq> set s"
proof (induction s arbitrary: l)
  case Nil
  then show ?case by simp
next
  case (Cons c s)
  obtain h t where ht: "split_lines s = h # t" by (cases "split_lines s") simp_all
  have h: "set h \<subseteq> set s" using Cons.IH [of h] ht by simp
  show ?case
  proof (cases "c = LF")
    case True
    then have "l = [] \<or> l \<in> set (split_lines s)" using Cons.prems by simp
    then show ?thesis using Cons.IH [of l] by auto
  next
    case False
    then have "l = c # h \<or> l \<in> set t" using Cons.prems ht by simp
    then show ?thesis
    proof
      assume "l = c # h"
      then show ?thesis using h by auto
    next
      assume "l \<in> set t"
      then have "set l \<subseteq> set s" using Cons.IH [of l] ht by simp
      then show ?thesis by auto
    qed
  qed
qed

lemma hd_split_lines: "hd (split_lines y) = takeWhile (\<lambda>c. c \<noteq> LF) y"
  by (induction y) simp_all

lemma split_lines_two: "LF \<in> set s \<Longrightarrow> tl (split_lines s) \<noteq> []"
  by (induction s) auto

lemma last_split_lines: "last (split_lines x) = rev (takeWhile (\<lambda>c. c \<noteq> LF) (rev x))"
proof (induction x)
  case Nil
  show ?case by simp
next
  case (Cons c x)
  obtain h t where ht: "split_lines x = h # t" by (cases "split_lines x") simp_all
  show ?case
  proof (cases "LF \<in> set x")
    case True
    then have t: "t \<noteq> []" using split_lines_two [of x] ht by simp
    have "takeWhile (\<lambda>c. c \<noteq> LF) (rev x @ [c]) = takeWhile (\<lambda>c. c \<noteq> LF) (rev x)"
      using True by (simp add: takeWhile_append1)
    then show ?thesis using Cons ht t by simp
  next
    case False
    then have s: "split_lines x = [x]" by (rule split_lines_single)
    have "\<And>y. y \<in> set (rev x) \<Longrightarrow> y \<noteq> LF" using False by auto
    then have "takeWhile (\<lambda>c. c \<noteq> LF) (rev x @ [c]) = rev x @ takeWhile (\<lambda>c. c \<noteq> LF) [c]"
      by (rule takeWhile_append2)
    then show ?thesis using s by simp
  qed
qed

lemma trim_Nil [simp]: "trim [] = []"
  by (simp add: trim_def)

lemma dropWhile_append_all:
  "\<forall>x\<in>set xs. P x \<Longrightarrow> dropWhile P (xs @ ys) = dropWhile P ys"
  by (simp add: dropWhile_append2)

lemma dropWhile_append_some:
  "\<not> (\<forall>x\<in>set xs. P x) \<Longrightarrow> dropWhile P (xs @ ys) = dropWhile P xs @ ys"
  using dropWhile_append1 [of _ xs P ys] by blast

lemma trim_all_ws:
  assumes "\<forall>c\<in>set v. isWhiteSpace c"
  shows "trim v = []"
proof -
  have d: "dropWhile isWhiteSpace v = []" using assms dropWhile_eq_Nil_conv by blast
  show ?thesis by (simp only: trim_def d rev.simps dropWhile.simps)
qed

lemma trim_ws_left:
  assumes "\<forall>c\<in>set v. isWhiteSpace c"
  shows "trim (v @ l) = trim l"
  by (simp only: trim_def dropWhile_append_all [OF assms])

lemma trim_ws_right:
  assumes "\<forall>c\<in>set v. isWhiteSpace c"
  shows "trim (l @ v) = trim l"
proof (cases "\<forall>c\<in>set l. isWhiteSpace c")
  case True
  then have "\<forall>c\<in>set (l @ v). isWhiteSpace c" using assms by auto
  then have "trim (l @ v) = []" by (rule trim_all_ws)
  moreover have "trim l = []" using True by (rule trim_all_ws)
  ultimately show ?thesis by simp
next
  case False
  have a: "dropWhile isWhiteSpace (l @ v) = dropWhile isWhiteSpace l @ v"
    using False by (rule dropWhile_append_some)
  have "\<forall>c\<in>set (rev v). isWhiteSpace c" using assms by simp
  then have b: "dropWhile isWhiteSpace (rev v @ rev (dropWhile isWhiteSpace l))
        = dropWhile isWhiteSpace (rev (dropWhile isWhiteSpace l))"
    by (rule dropWhile_append_all)
  show ?thesis by (simp only: trim_def a rev_append b)
qed

lemma trim_decompose:
  "\<exists>v w. s = v @ trim s @ w \<and> dropWhile isWhiteSpace s = trim s @ w
         \<and> (\<forall>c\<in>set v. isWhiteSpace c) \<and> (\<forall>c\<in>set w. isWhiteSpace c)"
proof -
  let ?v = "takeWhile isWhiteSpace s"
  let ?r = "dropWhile isWhiteSpace s"
  let ?w = "rev (takeWhile isWhiteSpace (rev ?r))"
  have "rev ?r = takeWhile isWhiteSpace (rev ?r) @ dropWhile isWhiteSpace (rev ?r)" by simp
  then have "rev (rev ?r) = rev (dropWhile isWhiteSpace (rev ?r)) @ ?w"
    by (metis rev_append)
  then have r: "?r = trim s @ ?w"
    by (simp add: trim_def)
  then have "s = ?v @ trim s @ ?w" by (metis takeWhile_dropWhile_id)
  moreover have "\<forall>c\<in>set ?v. isWhiteSpace c" by (auto dest: set_takeWhileD)
  moreover have "\<forall>c\<in>set ?w. isWhiteSpace c" by (auto dest: set_takeWhileD)
  ultimately show ?thesis using r by blast
qed

lemma length_trim: "length (trim s) \<le> length s"
proof -
  obtain v w where "s = v @ trim s @ w" using trim_decompose [of s] by blast
  then have "length s = length v + length (trim s) + length w"
    by (metis length_append add.assoc)
  then show ?thesis by simp
qed

lemma trim_tight:
  assumes "trim s \<noteq> []"
  shows "\<not> isWhiteSpace (hd (trim s)) \<and> \<not> isWhiteSpace (last (trim s))"
proof -
  let ?r = "dropWhile isWhiteSpace s"
  let ?u = "dropWhile isWhiteSpace (rev ?r)"
  have t: "trim s = rev ?u" by (simp add: trim_def)
  then have u: "?u \<noteq> []" using assms by simp
  then have "\<not> isWhiteSpace (hd ?u)" by (rule hd_dropWhile)
  then have l: "\<not> isWhiteSpace (last (trim s))"
    using u t by (simp add: last_rev)
  obtain v w where "?r = trim s @ w" using trim_decompose [of s] by blast
  then have "hd ?r = hd (trim s)" "?r \<noteq> []" using assms by (metis hd_append2, auto)
  then have "\<not> isWhiteSpace (hd (trim s))" using hd_dropWhile [of isWhiteSpace s] by simp
  with l show ?thesis by simp
qed

lemma trim_idem_tight:
  assumes "s \<noteq> []" "\<not> isWhiteSpace (hd s)" "\<not> isWhiteSpace (last s)"
  shows "trim s = s"
proof -
  have "dropWhile isWhiteSpace s = s" using assms(1,2) by (cases s) simp_all
  moreover have "dropWhile isWhiteSpace (rev s) = rev s"
    using assms(1,3) by (cases "rev s") (simp_all add: last_rev [symmetric] hd_rev)
  ultimately show ?thesis by (simp add: trim_def)
qed

lemma trim_junction:
  assumes "x = [] \<or> \<not> isWhiteSpace (last x)" and "y = [] \<or> \<not> isWhiteSpace (hd y)"
  shows "trim (x @ y) = trim x @ trim y"
proof (cases "x = [] \<or> y = []")
  case True
  then show ?thesis by auto
next
  case False
  then have x: "x \<noteq> []" "\<not> isWhiteSpace (last x)" and y: "y \<noteq> []" "\<not> isWhiteSpace (hd y)"
    using assms by auto
  have nx: "\<not> (\<forall>c\<in>set x. isWhiteSpace c)" using x by (meson last_in_set)
  have ny: "\<not> (\<forall>c\<in>set (rev y). isWhiteSpace c)" using y by (metis hd_in_set set_rev)
  have dy: "dropWhile isWhiteSpace y = y" using y by (cases y) simp_all
  have dx: "dropWhile isWhiteSpace (rev x) = rev x"
    using x by (cases "rev x") (simp_all add: last_rev [symmetric] hd_rev)
  have "dropWhile isWhiteSpace (x @ y) = dropWhile isWhiteSpace x @ y"
    using nx by (rule dropWhile_append_some)
  then have "trim (x @ y) = rev (dropWhile isWhiteSpace (rev y @ rev (dropWhile isWhiteSpace x)))"
    by (simp only: trim_def rev_append)
  also have "\<dots> = rev (dropWhile isWhiteSpace (rev y) @ rev (dropWhile isWhiteSpace x))"
    by (simp only: dropWhile_append_some [OF ny])
  also have "\<dots> = dropWhile isWhiteSpace x @ rev (dropWhile isWhiteSpace (rev y))"
    by simp
  also have "dropWhile isWhiteSpace x = trim x"
  proof -
    obtain v w where vw: "dropWhile isWhiteSpace x = trim x @ w" "\<forall>c\<in>set w. isWhiteSpace c"
      using trim_decompose [of x] by blast
    have "dropWhile isWhiteSpace x \<noteq> []" using nx by simp
    moreover have "last (dropWhile isWhiteSpace x) = last x"
      using nx by (metis calculation takeWhile_dropWhile_id last_appendR)
    ultimately have "w = []" using vw x(2)
      by (metis last_appendR last_in_set)
    then show ?thesis using vw by simp
  qed
  also have "rev (dropWhile isWhiteSpace (rev y)) = trim y"
    by (simp add: trim_def dy)
  finally show ?thesis .
qed

lemma hd_line_tight:
  assumes "y = [] \<or> \<not> isWhiteSpace (hd y)"
  shows "hd (split_lines y) = [] \<or> \<not> isWhiteSpace (hd (hd (split_lines y)))"
proof (cases y)
  case Nil
  then show ?thesis by simp
next
  case (Cons c cs)
  then have "\<not> isWhiteSpace c" using assms by simp
  then have "c \<noteq> LF" by (auto simp: isWhiteSpace_def LF_def)
  then show ?thesis using Cons \<open>\<not> isWhiteSpace c\<close> by (simp add: hd_split_lines)
qed

lemma last_line_tight:
  assumes "x = [] \<or> \<not> isWhiteSpace (last x)"
  shows "last (split_lines x) = [] \<or> \<not> isWhiteSpace (last (last (split_lines x)))"
proof (cases "rev x")
  case Nil
  then show ?thesis by simp
next
  case (Cons c cs)
  then have x: "x = rev cs @ [c]" by (metis rev.simps(2) rev_rev_ident)
  then have "\<not> isWhiteSpace c" using assms by simp
  then have "c \<noteq> LF" by (auto simp: isWhiteSpace_def LF_def)
  then show ?thesis using Cons \<open>\<not> isWhiteSpace c\<close> by (simp add: last_split_lines)
qed

subsection \<open>The chunker: size of the chunks\<close>

lemma flush_bound:
  assumes "c \<in> set (flush f cur)" and "length cur \<le> 801 \<or> cur \<in> S"
  shows "length (text c) \<le> 801 \<or> (\<exists>l\<in>S. 800 < length l \<and> text c = trim l)"
proof -
  have t: "text c = trim cur" using assms(1) by (auto simp: flush_def split: if_splits)
  show ?thesis
  proof (cases "length cur \<le> 801")
    case True
    then show ?thesis using t length_trim [of cur] by simp
  next
    case False
    then have "cur \<in> S" "800 < length cur" using assms(2) by auto
    then show ?thesis using t by blast
  qed
qed

lemma chunk_lines_bound:
  assumes "c \<in> set (chunk_lines f lines cur)"
    and "length cur \<le> 801 \<or> cur \<in> S" and "set lines \<subseteq> S"
  shows "length (text c) \<le> 801 \<or> (\<exists>l\<in>S. 800 < length l \<and> text c = trim l)"
  using assms
proof (induction lines arbitrary: cur)
  case Nil
  then show ?case using flush_bound [of c f cur S] by simp
next
  case (Cons line lines)
  show ?case
  proof (cases "length cur + length line > 800")
    case True
    then have "c \<in> set (flush f cur) \<or> c \<in> set (chunk_lines f lines line)"
      using Cons.prems(1) by simp
    then show ?thesis
    proof
      assume "c \<in> set (flush f cur)"
      then show ?thesis using Cons.prems(2) by (rule flush_bound)
    next
      assume "c \<in> set (chunk_lines f lines line)"
      then show ?thesis using Cons.prems(3) by (intro Cons.IH [of line]) auto
    qed
  next
    case False
    then have "c \<in> set (chunk_lines f lines (cur @ [LF] @ line))"
      using Cons.prems(1) by simp
    moreover have "length (cur @ [LF] @ line) \<le> 801" using False by simp
    ultimately show ?thesis using Cons.prems(3) by (intro Cons.IH [of "cur @ [LF] @ line"]) auto
  qed
qed

text \<open>What does hold: 801, not 800, bounds every chunk that is not one oversized line.\<close>

lemma chunk_file_bound:
  assumes "c \<in> set (chunk_file f content)"
  shows "length (text c) \<le> 801
         \<or> (\<exists>l\<in>set (split_lines content). 800 < length l \<and> text c = trim l)"
  using assms unfolding chunk_file_def
  by (rule chunk_lines_bound) simp_all

text \<open>
  Claim C3 states that a chunk exceeds 800 characters only when it is a single line
  longer than 800. The code breaks this by one: the test of line 47 adds the lengths of
  the accumulator and of the line but not the line feed that line 56 puts between them.
  For the document of three lines of 500, 500 and 300 characters the second chunk is the
  last two lines joined, 801 characters, and neither of its lines exceeds 800.
\<close>

theorem two_short_lines_make_801:
  "chunk_file (lit ''doc.txt'') three_lines
     = [\<lparr>text = replicate 500 0x61, source = lit ''doc.txt'', embedding = None\<rparr>,
        \<lparr>text = replicate 500 0x62 @ [LF] @ replicate 300 0x63, source = lit ''doc.txt'',
          embedding = None\<rparr>]
   \<and> length (replicate 500 (0x62 :: code_unit) @ [LF] @ replicate 300 0x63) = 801
   \<and> split_lines (replicate 500 0x62 @ [LF] @ replicate 300 0x63)
       = [replicate 500 0x62, replicate 300 0x63]"
proof -
  let ?A = "replicate 500 (0x61 :: code_unit)"
  let ?B = "replicate 500 (0x62 :: code_unit)"
  let ?C = "replicate 300 (0x63 :: code_unit)"
  have nl: "LF \<notin> set ?A" "LF \<notin> set ?B" "LF \<notin> set ?C"
    by (simp_all add: LF_def)
  have sC: "split_lines ?C = [?C]" using nl(3) by (rule split_lines_single)
  have sBC: "split_lines (?B @ LF # ?C) = [?B, ?C]"
    using split_lines_Cons_line [OF nl(2), of ?C] sC by simp
  have s: "split_lines three_lines = [?A, ?B, ?C]"
    using split_lines_Cons_line [OF nl(1), of "?B @ LF # ?C"] sBC by (simp add: three_lines_def)
  have tA: "trim ?A = ?A"
    by (rule trim_idem_tight) (simp_all add: isWhiteSpace_def last_replicate)
  have "trim ([LF] @ ?A) = trim ?A"
    by (rule trim_ws_left) (simp add: isWhiteSpace_def LF_def)
  then have t1: "trim (LF # ?A) = ?A" using tA by simp
  have t2: "trim (?B @ LF # ?C) = ?B @ LF # ?C"
    by (rule trim_idem_tight) (simp_all add: isWhiteSpace_def last_replicate hd_append)
  have "chunk_file (lit ''doc.txt'') three_lines
     = [\<lparr>text = ?A, source = lit ''doc.txt'', embedding = None\<rparr>,
        \<lparr>text = ?B @ [LF] @ ?C, source = lit ''doc.txt'', embedding = None\<rparr>]"
    by (simp add: chunk_file_def s flush_def t1 t2)
  then show ?thesis using sBC by simp
qed

subsection \<open>The chunker: reconstruction\<close>

lemma squeeze_append:
  "squeeze (x @ y) =
     concat (map trim (butlast (split_lines x)))
     @ trim (last (split_lines x) @ hd (split_lines y))
     @ concat (map trim (tl (split_lines y)))"
  by (simp add: squeeze_def split_lines_append)

lemma concat_trim_last:
  "L \<noteq> [] \<Longrightarrow> concat (map trim L) = concat (map trim (butlast L)) @ trim (last L)"
  by (induction L) simp_all

lemma concat_trim_hd:
  "L \<noteq> [] \<Longrightarrow> concat (map trim L) = trim (hd L) @ concat (map trim (tl L))"
  by (cases L) simp_all

lemma squeeze_split:
  "squeeze x = concat (map trim (butlast (split_lines x))) @ trim (last (split_lines x))"
  "squeeze x = trim (hd (split_lines x)) @ concat (map trim (tl (split_lines x)))"
  unfolding squeeze_def
  by (rule concat_trim_last, simp) (rule concat_trim_hd, simp)

lemma squeeze_junction:
  assumes "x = [] \<or> \<not> isWhiteSpace (last x)" and "y = [] \<or> \<not> isWhiteSpace (hd y)"
  shows "squeeze (x @ y) = squeeze x @ squeeze y"
proof -
  have "trim (last (split_lines x) @ hd (split_lines y))
      = trim (last (split_lines x)) @ trim (hd (split_lines y))"
    using last_line_tight [OF assms(1)] hd_line_tight [OF assms(2)] by (rule trim_junction)
  then show ?thesis
    by (simp add: squeeze_append squeeze_split(1) [of x] squeeze_split(2) [of y])
qed

lemma squeeze_all_ws:
  assumes "\<forall>c\<in>set w. isWhiteSpace c"
  shows "squeeze w = []"
proof -
  have "trim l = []" if "l \<in> set (split_lines w)" for l
    using split_lines_subset [OF that] assms by (intro trim_all_ws) auto
  then show ?thesis by (simp add: squeeze_def)
qed

lemma squeeze_ws_left:
  assumes "\<forall>c\<in>set w. isWhiteSpace c"
  shows "squeeze (w @ x) = squeeze x"
proof -
  have l: "\<forall>c\<in>set l. isWhiteSpace c" if "l \<in> set (split_lines w)" for l
    using split_lines_subset [OF that] assms by auto
  have "last (split_lines w) \<in> set (split_lines w)" by simp
  then have a: "trim (last (split_lines w) @ hd (split_lines x)) = trim (hd (split_lines x))"
    using l by (intro trim_ws_left) blast
  have "trim l = []" if "l \<in> set (butlast (split_lines w))" for l
    using l [of l] that by (intro trim_all_ws) (auto dest: in_set_butlastD)
  then have b: "concat (map trim (butlast (split_lines w))) = []" by simp
  show ?thesis
    by (simp add: squeeze_append a b squeeze_split(2) [of x])
qed

lemma squeeze_ws_right:
  assumes "\<forall>c\<in>set w. isWhiteSpace c"
  shows "squeeze (x @ w) = squeeze x"
proof -
  have l: "\<forall>c\<in>set l. isWhiteSpace c" if "l \<in> set (split_lines w)" for l
    using split_lines_subset [OF that] assms by auto
  have "hd (split_lines w) \<in> set (split_lines w)" by simp
  then have a: "trim (last (split_lines x) @ hd (split_lines w)) = trim (last (split_lines x))"
    using l by (intro trim_ws_right) blast
  have "trim l = []" if "l \<in> set (tl (split_lines w))" for l
    using l [of l] that by (intro trim_all_ws) (auto dest: list.set_sel(2) [rotated])
  then have b: "concat (map trim (tl (split_lines w))) = []" by simp
  show ?thesis
    by (simp add: squeeze_append a b squeeze_split(1) [of x])
qed

lemma squeeze_trim: "squeeze (trim s) = squeeze s"
proof -
  obtain v w where d: "s = v @ trim s @ w" "\<forall>c\<in>set v. isWhiteSpace c" "\<forall>c\<in>set w. isWhiteSpace c"
    using trim_decompose [of s] by blast
  have "squeeze s = squeeze (v @ trim s @ w)" using d(1) by simp
  also have "\<dots> = squeeze (trim s @ w)" using d(2) by (rule squeeze_ws_left)
  also have "\<dots> = squeeze (trim s)" using d(3) by (rule squeeze_ws_right)
  finally show ?thesis by simp
qed

lemma squeeze_line: "LF \<notin> set l \<Longrightarrow> squeeze l = trim l"
  by (simp add: squeeze_def split_lines_single)

lemma squeeze_snoc_line: "LF \<notin> set line \<Longrightarrow> squeeze (cur @ [LF] @ line) = squeeze cur @ trim line"
  using split_lines_snoc_line [of line cur] by (simp add: squeeze_def)

lemma flush_squeeze: "concat (map (\<lambda>c. squeeze (text c)) (flush f cur)) = squeeze cur"
proof (cases "trim cur = []")
  case True
  then have "squeeze cur = []" using squeeze_trim [of cur] by (simp add: squeeze_def)
  then show ?thesis using True by (simp add: flush_def)
next
  case False
  then show ?thesis by (simp add: flush_def squeeze_trim)
qed

lemma chunk_lines_squeeze:
  assumes "\<forall>l\<in>set lines. LF \<notin> set l"
  shows "concat (map (\<lambda>c. squeeze (text c)) (chunk_lines f lines cur))
         = squeeze cur @ concat (map trim lines)"
  using assms
proof (induction lines arbitrary: cur)
  case Nil
  show ?case by (simp add: flush_squeeze)
next
  case (Cons line lines)
  have l: "LF \<notin> set line" using Cons.prems by simp
  have ih: "\<And>cur. concat (map (\<lambda>c. squeeze (text c)) (chunk_lines f lines cur))
         = squeeze cur @ concat (map trim lines)"
    using Cons by simp
  show ?case
    using squeeze_snoc_line [OF l, of cur]
    by (simp add: ih flush_squeeze squeeze_line [OF l])
qed

lemma flush_tight:
  "c \<in> set (flush f cur) \<Longrightarrow> text c \<noteq> [] \<and> \<not> isWhiteSpace (hd (text c)) \<and> \<not> isWhiteSpace (last (text c))"
  using trim_tight [of cur] by (auto simp: flush_def split: if_splits)

lemma chunk_lines_tight:
  "c \<in> set (chunk_lines f lines cur) \<Longrightarrow>
     text c \<noteq> [] \<and> \<not> isWhiteSpace (hd (text c)) \<and> \<not> isWhiteSpace (last (text c))"
proof (induction lines arbitrary: cur)
  case Nil
  then show ?case using flush_tight by simp
next
  case (Cons line lines)
  then show ?case using flush_tight by (auto split: if_splits)
qed

lemma squeeze_concat_tight:
  assumes "\<forall>t\<in>set ts. t \<noteq> [] \<and> \<not> isWhiteSpace (hd t) \<and> \<not> isWhiteSpace (last t)"
  shows "squeeze (concat ts) = concat (map squeeze ts)"
  using assms
proof (induction ts)
  case Nil
  show ?case by (simp add: squeeze_def)
next
  case (Cons t ts)
  have "concat ts = [] \<or> \<not> isWhiteSpace (hd (concat ts))"
    using Cons.prems by (cases ts) auto
  then have "squeeze (t @ concat ts) = squeeze t @ squeeze (concat ts)"
    using Cons.prems by (intro squeeze_junction) auto
  then show ?case using Cons by simp
qed

text \<open>
  Claim C7. For every document, the texts of its chunks concatenated in output order are
  the document's content modulo line-boundary whitespace: both give the same text once
  every line is trimmed and the line breaks are removed. The empty document yields no
  chunk.
\<close>

theorem chunks_reconstruct_document:
  "squeeze (concat (map text (chunk_file f content))) = squeeze content
   \<and> chunk_file f [] = []"
proof
  have t: "\<forall>t\<in>set (map text (chunk_file f content)).
             t \<noteq> [] \<and> \<not> isWhiteSpace (hd t) \<and> \<not> isWhiteSpace (last t)"
    using chunk_lines_tight by (auto simp: chunk_file_def)
  have "squeeze (concat (map text (chunk_file f content)))
      = concat (map squeeze (map text (chunk_file f content)))"
    using t by (rule squeeze_concat_tight)
  also have "\<dots> = concat (map (\<lambda>c. squeeze (text c)) (chunk_lines f (split_lines content) []))"
    by (simp add: chunk_file_def comp_def)
  also have "\<dots> = squeeze [] @ concat (map trim (split_lines content))"
    by (rule chunk_lines_squeeze) (auto dest: split_lines_no_LF)
  also have "\<dots> = squeeze content"
    by (simp add: squeeze_def)
  finally show "squeeze (concat (map text (chunk_file f content))) = squeeze content" .
  show "chunk_file f [] = []"
    by (simp add: chunk_file_def flush_def trim_def isWhiteSpace_def LF_def)
qed

end
